theory Spec2Isabelle
  imports Main "HOL-Library.Word"
begin

unbundle bit_operations_syntax

section \<open>The network-map translator (package nmcfg)\<close>

subsection \<open>Data: netip prefixes, nodes, the network map, the WireGuard configuration\<close>

text \<open>
  \<^verbatim>\<open>netip.Prefix\<close> of the Go standard library is an address and a prefix length stored
  as \<open>bits + 1\<close>, so that the zero value is the invalid prefix. \<^verbatim>\<open>Bits()\<close> is
  \<open>-1\<close> for an invalid prefix, and \<^verbatim>\<open>IsSingleIP()\<close> holds for a valid prefix whose
  length is the bit length of its address. \<^verbatim>\<open>==\<close> on prefixes is equality of both fields.
\<close>

datatype addr = AddrZero | Addr4 "32 word" | Addr6 "128 word"

record prefix =
  ip :: addr
  bitsPlusOne :: nat

fun BitLen :: "addr \<Rightarrow> int" where
  "BitLen AddrZero = 0"
| "BitLen (Addr4 a) = 32"
| "BitLen (Addr6 a) = 128"

definition Bits :: "prefix \<Rightarrow> int" where
  "Bits p = int (bitsPlusOne p) - 1"

definition IsValid :: "prefix \<Rightarrow> bool" where
  "IsValid p = (bitsPlusOne p > 0)"

definition IsSingleIP :: "prefix \<Rightarrow> bool" where
  "IsSingleIP p = (IsValid p \<and> Bits p = BitLen (ip p))"

text \<open>
  The node capabilities \<^verbatim>\<open>WGCfg\<close> asks for are constants of package tailcfg, which is
  not part of the sources at hand; only their being two different names matters.
\<close>

datatype NodeCapability =
    CapabilityDataPlaneAuditLogs
  | NodeAttrLogExitFlows
  | OtherCapability string

text \<open>
  The one field of \<^verbatim>\<open>tailcfg.Hostinfo\<close> that package nmcfg reads.
\<close>

record Hostinfo =
  Hostname :: string

text \<open>
  The fields of \<^verbatim>\<open>tailcfg.Node\<close> that package nmcfg reads, and \<^verbatim>\<open>MachineAuthorized\<close>,
  which the backend's test sets. Keys and log identifiers are 32-byte arrays;
  \<^verbatim>\<open>IsZero\<close> on a key is equality with the all-zero array. \<^verbatim>\<open>Hostinfo\<close> is a view of a
  \<^verbatim>\<open>tailcfg.Hostinfo\<close>, a pointer that is nil in a node built without host info (as every
  node of the tests is): an option.
\<close>

record Node =
  ID :: "64 word"
  StableID :: string
  Name :: string
  Hostinfo :: "Hostinfo option"
  Key :: "256 word"
  DiscoKey :: "256 word"
  HomeDERP :: int
  IsWireGuardOnly :: bool
  Expired :: bool
  IsJailed :: bool
  MachineAuthorized :: bool
  Addresses :: "prefix list"
  AllowedIPs :: "prefix list"
  PrimaryRoutes :: "prefix list"
  Tags :: "string list"
  CapMap :: "NodeCapability \<rightharpoonup> string list"
  DataPlaneAuditLogID :: string
  SelfNodeV4MasqAddrForThisPeer :: "addr option"
  SelfNodeV6MasqAddrForThisPeer :: "addr option"

definition HasCap :: "Node \<Rightarrow> NodeCapability \<Rightarrow> bool" where
  "HasCap n c = (CapMap n c \<noteq> None)"

text \<open>
  \<^verbatim>\<open>nm.SelfNode\<close> is a \<^verbatim>\<open>NodeView\<close>, which may be invalid (a nil pointer): an option.
  \<^verbatim>\<open>Expiry\<close> is a time, here a number of seconds; \<open>None\<close> is the zero time of a map
  that carries no expiry.
\<close>

record NetworkMap =
  SelfNode :: "Node option"
  Peers :: "Node list"
  DomainAuditLogID :: string
  Expiry :: "int option"

record NetworkLogging =
  NodeID :: "256 word"
  DomainID :: "256 word"
  LogExitFlowEnabled :: bool

record Peer =
  Peer_PublicKey :: "256 word"
  Peer_DiscoKey :: "256 word"
  Peer_AllowedIPs :: "prefix list"
  Peer_V4MasqAddr :: "addr option"
  Peer_V6MasqAddr :: "addr option"
  Peer_IsJailed :: bool

record Config =
  Cfg_PrivateKey :: "256 word"
  Cfg_Addresses :: "prefix list"
  Cfg_Peers :: "Peer list"
  Cfg_NetworkLogging :: NetworkLogging

text \<open>The zero value of the \<^verbatim>\<open>NetworkLogging\<close> struct of a fresh \<^verbatim>\<open>wgcfg.Config\<close>.\<close>

definition zeroNetworkLogging :: NetworkLogging where
  "zeroNetworkLogging = \<lparr>NodeID = 0, DomainID = 0, LogExitFlowEnabled = False\<rparr>"

text \<open>
  \<^verbatim>\<open>netmap.WGConfigFlags\<close> is an int used as a bit set; \<^verbatim>\<open>AllowSubnetRoutes\<close> is one of
  its single-bit masks (declared in package netmap, as the second of an iota sequence).
\<close>

definition AllowSubnetRoutes :: "64 word" where
  "AllowSubnetRoutes = 2"

text \<open>
  A call either returns or panics. A panic of the translator is a nil-pointer dereference:
  of the map, or of the host info of a node.
\<close>

datatype 'a outcome = Panics | Returns 'a

text \<open>
  What the translator hands to its \<^verbatim>\<open>logf\<close> argument, one value per call. The line of
  \<^verbatim>\<open>logList\<close> carries the title, the number of nodes and a \<^verbatim>\<open>logger.ArgWriter\<close>, a
  function that the logger may run to write the nodes: the third component is what that
  function writes, or \<open>Panics\<close> when it panics.
\<close>

datatype logline =
    UnableToParseNodeID string
  | UnableToParseDomainID string
  | SkippedPeerNoDERPOrDisco "256 word"
  | AddingHAAllowedIPs nat string "prefix list"
  | LogList string nat "(string \<times> string) list outcome"

subsection \<open>\<^verbatim>\<open>nodeDebugName\<close> and \<^verbatim>\<open>cidrIsSubnet\<close>\<close>

text \<open>
  \<^verbatim>\<open>strings.Cut(cmp.Or(n.Name(), n.Hostinfo().Hostname()), ".")\<close>, first component.
  Both arguments of \<^verbatim>\<open>cmp.Or\<close> are evaluated before the call, so the host name is read
  whatever the name is: on a node without host info the read dereferences a nil pointer
  and \<^verbatim>\<open>nodeDebugName\<close> panics, also when the node has a name.
\<close>

definition nodeDebugName :: "Node \<Rightarrow> string outcome" where
  "nodeDebugName n =
     (case Hostinfo n of
        None \<Rightarrow> Panics
      | Some hi \<Rightarrow>
          Returns (takeWhile (\<lambda>c. c \<noteq> CHR ''.'') (if Name n \<noteq> [] then Name n else Hostname hi)))"

text \<open>The loop of \<^verbatim>\<open>cidrIsSubnet\<close> over the node's own addresses.\<close>

fun cidrIsSubnet_loop :: "prefix \<Rightarrow> prefix list \<Rightarrow> bool" where
  "cidrIsSubnet_loop cidr [] = True"
| "cidrIsSubnet_loop cidr (selfCIDR # rest) =
     (if cidr = selfCIDR then False else cidrIsSubnet_loop cidr rest)"

definition cidrIsSubnet :: "Node \<Rightarrow> prefix \<Rightarrow> bool" where
  "cidrIsSubnet node cidr =
     (if Bits cidr = 0 then False
      else if \<not> IsSingleIP cidr then True
      else cidrIsSubnet_loop cidr (Addresses node))"

subsection \<open>\<^verbatim>\<open>haSubnetRouterAllowedIPs\<close>\<close>

text \<open>The first loop: is one of self's allowed IPs a subnet route?\<close>

fun selfIsSubnetRouter :: "Node \<Rightarrow> prefix list \<Rightarrow> bool" where
  "selfIsSubnetRouter selfNode [] = False"
| "selfIsSubnetRouter selfNode (aip # rest) =
     (if cidrIsSubnet selfNode aip then True else selfIsSubnetRouter selfNode rest)"

text \<open>The loop marking the peer's existing allowed IPs in the \<^verbatim>\<open>seen\<close> map.\<close>

fun markSeen :: "prefix list \<Rightarrow> (prefix \<rightharpoonup> bool) \<Rightarrow> (prefix \<rightharpoonup> bool)" where
  "markSeen [] seen = seen"
| "markSeen (aip # rest) seen = markSeen rest (seen(aip \<mapsto> True))"

text \<open>\<^verbatim>\<open>seen[route]\<close>: a missing key reads as false.\<close>

definition seenLookup :: "(prefix \<rightharpoonup> bool) \<Rightarrow> prefix \<Rightarrow> bool" where
  "seenLookup seen route = (case seen route of None \<Rightarrow> False | Some b \<Rightarrow> b)"

text \<open>The two nested loops that look for a tag the two peers share.\<close>

fun tagLoopInner :: "string \<Rightarrow> string list \<Rightarrow> bool" where
  "tagLoopInner pt [] = False"
| "tagLoopInner pt (ot # rest) = (if pt = ot then True else tagLoopInner pt rest)"

fun hasSharedTag :: "string list \<Rightarrow> string list \<Rightarrow> bool" where
  "hasSharedTag [] otherTags = False"
| "hasSharedTag (pt # rest) otherTags =
     (if tagLoopInner pt otherTags then True else hasSharedTag rest otherTags)"

text \<open>The loop over one group member's primary routes.\<close>

fun addRoutes ::
  "prefix list \<Rightarrow> prefix list \<times> (prefix \<rightharpoonup> bool) \<Rightarrow> prefix list \<times> (prefix \<rightharpoonup> bool)" where
  "addRoutes [] st = st"
| "addRoutes (route # rest) (additionalIPs, seen) =
     (if seenLookup seen route then addRoutes rest (additionalIPs, seen)
      else addRoutes rest (additionalIPs @ [route], seen(route \<mapsto> True)))"

text \<open>The loop over all peers.\<close>

fun haLoop ::
  "Node \<Rightarrow> Node list \<Rightarrow> prefix list \<times> (prefix \<rightharpoonup> bool) \<Rightarrow> prefix list \<times> (prefix \<rightharpoonup> bool)" where
  "haLoop peer [] st = st"
| "haLoop peer (otherPeer # rest) st =
     (if ID otherPeer = ID peer then haLoop peer rest st
      else if length (PrimaryRoutes otherPeer) = 0 then haLoop peer rest st
      else if \<not> hasSharedTag (Tags peer) (Tags otherPeer) then haLoop peer rest st
      else haLoop peer rest (addRoutes (PrimaryRoutes otherPeer) st))"

definition haSubnetRouterAllowedIPs :: "Node option \<Rightarrow> Node \<Rightarrow> Node list \<Rightarrow> prefix list" where
  "haSubnetRouterAllowedIPs selfNode peer allPeers =
     (case selfNode of
        None \<Rightarrow> []
      | Some self \<Rightarrow>
          if \<not> selfIsSubnetRouter self (AllowedIPs self) then []
          else if length (Tags peer) = 0 then []
          else fst (haLoop peer allPeers ([], markSeen (AllowedIPs peer) Map.empty)))"

subsection \<open>\<^verbatim>\<open>WGCfg\<close>\<close>

text \<open>
  \<^verbatim>\<open>logid.ParsePrivateID\<close> belongs to a package outside the sources at hand, so the
  translator takes it as its first argument \<open>parse\<close>: \<open>Inl\<close> is the error it returns,
  \<open>Inr\<close> the parsed identifier.

  The block ``Setup log IDs for data plane audit logging'' of \<^verbatim>\<open>WGCfg\<close>: the value of
  \<^verbatim>\<open>cfg.NetworkLogging\<close> after it, and the lines it logs.
\<close>

definition WGCfg_logIDs ::
  "(string \<Rightarrow> string + 256 word) \<Rightarrow> NetworkMap \<Rightarrow> NetworkLogging \<times> logline list" where
  "WGCfg_logIDs parse nm =
     (case SelfNode nm of
        None \<Rightarrow> (zeroNetworkLogging, [])
      | Some self \<Rightarrow>
          let canNetworkLog = HasCap self CapabilityDataPlaneAuditLogs;
              logExitFlowEnabled = HasCap self NodeAttrLogExitFlows
          in if canNetworkLog \<and> DataPlaneAuditLogID self \<noteq> [] \<and> DomainAuditLogID nm \<noteq> [] then
               let errNode = parse (DataPlaneAuditLogID self);
                   errDomain = parse (DomainAuditLogID nm);
                   logs = (case errNode of Inl e \<Rightarrow> [UnableToParseNodeID e] | Inr _ \<Rightarrow> [])
                        @ (case errDomain of Inl e \<Rightarrow> [UnableToParseDomainID e] | Inr _ \<Rightarrow> [])
               in (case errNode of
                     Inr nodeID \<Rightarrow>
                       (case errDomain of
                          Inr domainID \<Rightarrow>
                            (\<lparr>NodeID = nodeID, DomainID = domainID,
                              LogExitFlowEnabled = logExitFlowEnabled\<rparr>, logs)
                        | Inl _ \<Rightarrow> (zeroNetworkLogging, logs))
                   | Inl _ \<Rightarrow> (zeroNetworkLogging, logs))
             else (zeroNetworkLogging, []))"

text \<open>
  The loop over one peer's allowed IPs. Its state is \<^verbatim>\<open>cpeer.AllowedIPs\<close>,
  \<^verbatim>\<open>didExitNodeLog\<close>, \<^verbatim>\<open>skippedExitNode\<close> and \<^verbatim>\<open>skippedSubnetRouter\<close>.
\<close>

fun allowedIPsLoop ::
  "Node \<Rightarrow> 64 word \<Rightarrow> string \<Rightarrow> prefix list \<Rightarrow>
   prefix list \<times> bool \<times> Node list \<times> Node list \<Rightarrow>
   prefix list \<times> bool \<times> Node list \<times> Node list" where
  "allowedIPsLoop peer flags exitNode [] st = st"
| "allowedIPsLoop peer flags exitNode (allowedIP # rest)
     (cpeerAllowedIPs, didExitNodeLog, skippedExitNode, skippedSubnetRouter) =
     (if Bits allowedIP = 0 \<and> StableID peer \<noteq> exitNode then
        (if didExitNodeLog then
           allowedIPsLoop peer flags exitNode rest
             (cpeerAllowedIPs, didExitNodeLog, skippedExitNode, skippedSubnetRouter)
         else
           allowedIPsLoop peer flags exitNode rest
             (cpeerAllowedIPs, True, skippedExitNode @ [peer], skippedSubnetRouter))
      else if cidrIsSubnet peer allowedIP \<and> flags AND AllowSubnetRoutes = 0 then
        allowedIPsLoop peer flags exitNode rest
          (cpeerAllowedIPs, didExitNodeLog, skippedExitNode, skippedSubnetRouter @ [peer])
      else
        allowedIPsLoop peer flags exitNode rest
          (cpeerAllowedIPs @ [allowedIP], didExitNodeLog, skippedExitNode, skippedSubnetRouter))"

text \<open>The state of the loop over the peers of the map.\<close>

record loopState =
  ls_Peers :: "Peer list"
  ls_skippedExitNode :: "Node list"
  ls_skippedSubnetRouter :: "Node list"
  ls_skippedExpired :: "Node list"
  ls_logs :: "logline list"

text \<open>
  The loop over the peers. The line about added HA prefixes takes \<^verbatim>\<open>nodeDebugName(peer)\<close>
  as an argument of the call of \<^verbatim>\<open>logf\<close>, so it is evaluated there, whatever the logger
  does with it: when prefixes are added for a peer without host info, the loop panics.
\<close>

fun peersLoop ::
  "NetworkMap \<Rightarrow> 64 word \<Rightarrow> string \<Rightarrow> Node list \<Rightarrow> loopState \<Rightarrow> loopState outcome" where
  "peersLoop nm flags exitNode [] st = Returns st"
| "peersLoop nm flags exitNode (peer # rest) st =
     (if DiscoKey peer = 0 \<and> HomeDERP peer = 0 \<and> \<not> IsWireGuardOnly peer then
        peersLoop nm flags exitNode rest
          (st\<lparr>ls_logs := ls_logs st @ [SkippedPeerNoDERPOrDisco (Key peer)]\<rparr>)
      else if Expired peer then
        peersLoop nm flags exitNode rest
          (st\<lparr>ls_skippedExpired := ls_skippedExpired st @ [peer]\<rparr>)
      else
        (case allowedIPsLoop peer flags exitNode (AllowedIPs peer)
                ([], False, ls_skippedExitNode st, ls_skippedSubnetRouter st) of
           (filtered, didExitNodeLog, skippedExitNode, skippedSubnetRouter) \<Rightarrow>
             let haIPs = (if flags AND AllowSubnetRoutes \<noteq> 0
                          then haSubnetRouterAllowedIPs (SelfNode nm) peer (Peers nm) else []);
                 cpeer = \<lparr>Peer_PublicKey = Key peer,
                          Peer_DiscoKey = DiscoKey peer,
                          Peer_AllowedIPs = (if length haIPs > 0 then filtered @ haIPs else filtered),
                          Peer_V4MasqAddr = SelfNodeV4MasqAddrForThisPeer peer,
                          Peer_V6MasqAddr = SelfNodeV6MasqAddrForThisPeer peer,
                          Peer_IsJailed = IsJailed peer\<rparr>;
                 st1 = st\<lparr>ls_Peers := ls_Peers st @ [cpeer],
                          ls_skippedExitNode := skippedExitNode,
                          ls_skippedSubnetRouter := skippedSubnetRouter\<rparr>
             in if length haIPs > 0 then
                  (case nodeDebugName peer of
                     Panics \<Rightarrow> Panics
                   | Returns name \<Rightarrow>
                       peersLoop nm flags exitNode rest
                         (st1\<lparr>ls_logs := ls_logs st @ [AddingHAAllowedIPs (length haIPs) name haIPs]\<rparr>))
                else peersLoop nm flags exitNode rest st1))"

text \<open>
  The function that \<^verbatim>\<open>logList\<close> wraps in a \<^verbatim>\<open>logger.ArgWriter\<close>, on the nodes it
  visits (the first five): it writes the debug name and the stable ID of each, and panics
  when \<^verbatim>\<open>nodeDebugName\<close> does.
\<close>

fun logListWriter :: "Node list \<Rightarrow> (string \<times> string) list outcome" where
  "logListWriter [] = Returns []"
| "logListWriter (n # nodes) =
     (case nodeDebugName n of
        Panics \<Rightarrow> Panics
      | Returns name \<Rightarrow>
          (case logListWriter nodes of
             Panics \<Rightarrow> Panics
           | Returns written \<Rightarrow> Returns ((name, StableID n) # written)))"

text \<open>
  The closure \<^verbatim>\<open>logList\<close>: nothing for an empty list, otherwise one line with the title,
  the number of nodes and the writer of the first five nodes. \<^verbatim>\<open>logf\<close> is an argument of
  \<^verbatim>\<open>WGCfg\<close>; the lines it is given are collected, and otherwise the translator depends
  on it in one respect only, the argument \<open>logfRunsWriter\<close>: whether the logger runs the
  writer it is handed, so that a panic of the writer is a panic of the call, or leaves it
  alone (a logger that discards its arguments).
\<close>

definition logList :: "bool \<Rightarrow> string \<Rightarrow> Node list \<Rightarrow> logline list outcome" where
  "logList logfRunsWriter title nodes =
     (if length nodes = 0 then Returns []
      else
        let writer = logListWriter (take 5 nodes)
        in if logfRunsWriter \<and> writer = Panics then Panics
           else Returns [LogList title (length nodes) writer])"

text \<open>
  \<^verbatim>\<open>nm.GetAddresses()\<close>: the self node's addresses, or none when the self node is invalid.
\<close>

definition GetAddresses :: "NetworkMap \<Rightarrow> prefix list" where
  "GetAddresses nm = (case SelfNode nm of None \<Rightarrow> [] | Some self \<Rightarrow> Addresses self)"

text \<open>
  \<^verbatim>\<open>WGCfg\<close> reads \<^verbatim>\<open>nm.Peers\<close> without a nil check, so a nil \<^verbatim>\<open>nm\<close> is a nil-pointer
  dereference. The error result is an option, \<open>None\<close> for \<^verbatim>\<open>nil\<close>. The third component
  of the result is what was logged.
\<close>

definition WGCfg ::
  "(string \<Rightarrow> string + 256 word) \<Rightarrow> 256 word \<Rightarrow> NetworkMap option \<Rightarrow> bool \<Rightarrow> 64 word \<Rightarrow> string \<Rightarrow>
   (Config \<times> string option \<times> logline list) outcome" where
  "WGCfg parse pk nmp logfRunsWriter flags exitNode =
     (case nmp of
        None \<Rightarrow> Panics
      | Some nm \<Rightarrow>
          (case WGCfg_logIDs parse nm of
             (networkLogging, logs0) \<Rightarrow>
               (case peersLoop nm flags exitNode (Peers nm)
                       \<lparr>ls_Peers = [], ls_skippedExitNode = [], ls_skippedSubnetRouter = [],
                        ls_skippedExpired = [], ls_logs = logs0\<rparr> of
                  Panics \<Rightarrow> Panics
                | Returns st \<Rightarrow>
                    let cfg = \<lparr>Cfg_PrivateKey = pk,
                               Cfg_Addresses = GetAddresses nm,
                               Cfg_Peers = ls_Peers st,
                               Cfg_NetworkLogging = networkLogging\<rparr>
                    in (case logList logfRunsWriter ''skipped unselected exit nodes''
                               (ls_skippedExitNode st) of
                          Panics \<Rightarrow> Panics
                        | Returns logs1 \<Rightarrow>
                            (case logList logfRunsWriter ''did not accept subnet routes''
                                    (ls_skippedSubnetRouter st) of
                               Panics \<Rightarrow> Panics
                             | Returns logs2 \<Rightarrow>
                                 (case logList logfRunsWriter ''skipped expired peers''
                                         (ls_skippedExpired st) of
                                    Panics \<Rightarrow> Panics
                                  | Returns logs3 \<Rightarrow>
                                      Returns (cfg, None,
                                               ls_logs st @ logs1 @ logs2 @ logs3)))))))"

subsection \<open>Notions used to state the translator's properties\<close>

text \<open>
  \<open>contributes peer other\<close>: \<open>other\<close> is another peer (by node ID) with a non-empty set of
  primary routes that shares a tag with \<open>peer\<close>. \<open>haGroupRoutes\<close> is the union of the
  primary routes of the contributing peers.
\<close>

definition contributes :: "Node \<Rightarrow> Node \<Rightarrow> bool" where
  "contributes peer other =
     (ID other \<noteq> ID peer \<and> PrimaryRoutes other \<noteq> [] \<and> set (Tags peer) \<inter> set (Tags other) \<noteq> {})"

definition haGroupRoutes :: "Node list \<Rightarrow> Node \<Rightarrow> prefix set" where
  "haGroupRoutes allPeers peer =
     (\<Union>other \<in> set (filter (contributes peer) allPeers). set (PrimaryRoutes other))"

text \<open>
  The self node advertises a subnet route, as the specification words it (section 4.2,
  step 4): it is valid and one of its allowed IPs is a non-default entry that is not a
  single address.
\<close>

definition statedSelfAdvertisesSubnetRoute :: "NetworkMap \<Rightarrow> bool" where
  "statedSelfAdvertisesSubnetRoute nm =
     (case SelfNode nm of
        None \<Rightarrow> False
      | Some self \<Rightarrow> \<exists>a \<in> set (AllowedIPs self). Bits a \<noteq> 0 \<and> \<not> IsSingleIP a)"

text \<open>
  The same with the wider notion of a subnet route: the self node is valid and one of its
  allowed IPs is not a default route and is not a single address that is one of the self
  node's own addresses.
\<close>

definition selfAdvertisesSubnetRoute :: "NetworkMap \<Rightarrow> bool" where
  "selfAdvertisesSubnetRoute nm =
     (case SelfNode nm of
        None \<Rightarrow> False
      | Some self \<Rightarrow>
          \<exists>a \<in> set (AllowedIPs self).
            Bits a \<noteq> 0 \<and> (\<not> IsSingleIP a \<or> a \<notin> set (Addresses self)))"

text \<open>
  What the loop of \<^verbatim>\<open>WGCfg\<close> tests, as a predicate on one entry; which peers get a
  configured peer; what the HA expansion appends; and the configured peer as a whole.
\<close>

definition keptByLoop :: "Node \<Rightarrow> 64 word \<Rightarrow> string \<Rightarrow> prefix \<Rightarrow> bool" where
  "keptByLoop peer flags exitNode a =
     (\<not> (Bits a = 0 \<and> StableID peer \<noteq> exitNode) \<and>
      \<not> (cidrIsSubnet peer a \<and> flags AND AllowSubnetRoutes = 0))"

definition peerIncluded :: "Node \<Rightarrow> bool" where
  "peerIncluded peer =
     (\<not> (DiscoKey peer = 0 \<and> HomeDERP peer = 0 \<and> \<not> IsWireGuardOnly peer) \<and> \<not> Expired peer)"

definition haAdded :: "NetworkMap \<Rightarrow> 64 word \<Rightarrow> Node \<Rightarrow> prefix list" where
  "haAdded nm flags peer =
     (if flags AND AllowSubnetRoutes \<noteq> 0
      then haSubnetRouterAllowedIPs (SelfNode nm) peer (Peers nm) else [])"

definition translatePeer :: "NetworkMap \<Rightarrow> 64 word \<Rightarrow> string \<Rightarrow> Node \<Rightarrow> Peer" where
  "translatePeer nm flags exitNode peer =
     \<lparr>Peer_PublicKey = Key peer,
      Peer_DiscoKey = DiscoKey peer,
      Peer_AllowedIPs = filter (keptByLoop peer flags exitNode) (AllowedIPs peer) @ haAdded nm flags peer,
      Peer_V4MasqAddr = SelfNodeV4MasqAddrForThisPeer peer,
      Peer_V6MasqAddr = SelfNodeV6MasqAddrForThisPeer peer,
      Peer_IsJailed = IsJailed peer\<rparr>"

text \<open>
  The filtering rule in terms of the entry alone: an entry is dropped when it is a default
  route and the peer is not the exit node, or when it is not a default route, is not a
  single address that is one of the peer's own addresses, and subnet routes are not accepted.
\<close>

definition entryDropped :: "Node \<Rightarrow> 64 word \<Rightarrow> string \<Rightarrow> prefix \<Rightarrow> bool" where
  "entryDropped peer flags exitNode a =
     ((Bits a = 0 \<and> StableID peer \<noteq> exitNode) \<or>
      (Bits a \<noteq> 0 \<and> (\<not> IsSingleIP a \<or> a \<notin> set (Addresses peer)) \<and>
       flags AND AllowSubnetRoutes = 0))"

text \<open>
  The rule as the specification words it: only a non-default entry that is not a single
  address counts as a subnet route.
\<close>

definition statedDropped :: "Node \<Rightarrow> 64 word \<Rightarrow> string \<Rightarrow> prefix \<Rightarrow> bool" where
  "statedDropped peer flags exitNode a =
     ((Bits a = 0 \<and> StableID peer \<noteq> exitNode) \<or>
      (Bits a \<noteq> 0 \<and> \<not> IsSingleIP a \<and> flags AND AllowSubnetRoutes = 0))"

subsection \<open>Concrete inputs\<close>

text \<open>
  The nodes of \<^verbatim>\<open>TestHASubnetRouterAllowedIPs\<close> (with a home DERP region, so that
  \<^verbatim>\<open>WGCfg\<close> does not skip them) and of \<^verbatim>\<open>TestCidrIsSubnet\<close>. As in the tests, a node
  built by \<open>testNode\<close> has no host info; \<open>withHostinfo\<close> gives it one.
\<close>

definition pfx4 :: "32 word \<Rightarrow> nat \<Rightarrow> prefix" where
  "pfx4 a n = \<lparr>ip = Addr4 a, bitsPlusOne = Suc n\<rparr>"

definition testNode ::
  "64 word \<Rightarrow> string \<Rightarrow> string list \<Rightarrow> prefix list \<Rightarrow> prefix list \<Rightarrow> prefix list \<Rightarrow> Node" where
  "testNode i nm tags addrs allowed primary =
     \<lparr>ID = i, StableID = nm, Name = nm, Hostinfo = None, Key = ucast i, DiscoKey = 0,
      HomeDERP = 1, IsWireGuardOnly = False, Expired = False, IsJailed = False,
      MachineAuthorized = True, Addresses = addrs, AllowedIPs = allowed, PrimaryRoutes = primary, Tags = tags,
      CapMap = Map.empty, DataPlaneAuditLogID = [],
      SelfNodeV4MasqAddrForThisPeer = None, SelfNodeV6MasqAddrForThisPeer = None\<rparr>"

definition withHostinfo :: "string \<Rightarrow> Node \<Rightarrow> Node" where
  "withHostinfo h n = n\<lparr>Hostinfo := Some \<lparr>Hostname = h\<rparr>\<rparr>"

definition siteASubnet :: prefix where "siteASubnet = pfx4 0x0A640000 16"
definition siteBSubnet :: prefix where "siteBSubnet = pfx4 0x0AC80000 16"
definition siteASR1Addr :: prefix where "siteASR1Addr = pfx4 0x64400001 32"
definition siteASR2Addr :: prefix where "siteASR2Addr = pfx4 0x64400002 32"
definition siteBSR1Addr :: prefix where "siteBSR1Addr = pfx4 0x64400003 32"
definition siteBSR2Addr :: prefix where "siteBSR2Addr = pfx4 0x64400004 32"

definition siteBSR2 :: Node where
  "siteBSR2 = testNode 4 ''site-b-sr2'' [''tag:site-b-sr''] [siteBSR2Addr]
                [siteBSR2Addr, siteBSubnet] [siteBSubnet]"
definition siteBSR1 :: Node where
  "siteBSR1 = testNode 3 ''site-b-sr1'' [''tag:site-b-sr''] [siteBSR1Addr]
                [siteBSR1Addr, siteBSubnet] [siteBSubnet]"
definition siteASR1AsSeenBySiteBSR2 :: Node where
  "siteASR1AsSeenBySiteBSR2 = testNode 1 ''site-a-sr1'' [''tag:site-a-sr''] [siteASR1Addr]
                [siteASR1Addr] [siteASubnet]"
definition siteASR2AsSeenBySiteBSR2 :: Node where
  "siteASR2AsSeenBySiteBSR2 = testNode 2 ''site-a-sr2'' [''tag:site-a-sr''] [siteASR2Addr]
                [siteASR2Addr, siteASubnet] [siteASubnet]"

text \<open>
  The map of the test's first two cases: self is \<open>siteBSR2\<close>, the peers are the test's
  \<^verbatim>\<open>allPeers\<close>, as the test builds them.
\<close>

definition testNetMap :: NetworkMap where
  "testNetMap = \<lparr>SelfNode = Some siteBSR2,
                 Peers = [siteASR1AsSeenBySiteBSR2, siteASR2AsSeenBySiteBSR2, siteBSR1],
                 DomainAuditLogID = [], Expiry = None\<rparr>"

text \<open>
  The same map with a self node of choice and with host info (host name \<open>sr\<close>) on every
  peer; the self node of the test's third case, whose only allowed IP is its own address;
  and a self node whose second allowed IP is the single address \<open>10.200.0.5/32\<close>, not one
  of its own.
\<close>

definition haNetMap :: "Node \<Rightarrow> NetworkMap" where
  "haNetMap self =
     \<lparr>SelfNode = Some self,
      Peers = map (withHostinfo ''sr'')
                [siteASR1AsSeenBySiteBSR2, siteASR2AsSeenBySiteBSR2, siteBSR1],
      DomainAuditLogID = [], Expiry = None\<rparr>"

definition nonSubnetRouterSelf :: Node where
  "nonSubnetRouterSelf = testNode 99 [] [] [pfx4 0x64400063 32] [pfx4 0x64400063 32] []"

definition hostRouteSelf :: Node where
  "hostRouteSelf = testNode 4 ''site-b-sr2'' [''tag:site-b-sr''] [siteBSR2Addr]
                     [siteBSR2Addr, pfx4 0x0AC80005 32] []"

text \<open>
  Two peers that offer both default routes; the second also offers a subnet route.
\<close>

definition defaultRoute4 :: prefix where "defaultRoute4 = pfx4 0 0"
definition defaultRoute6 :: prefix where "defaultRoute6 = \<lparr>ip = Addr6 0, bitsPlusOne = 1\<rparr>"

definition exitA :: Node where
  "exitA = withHostinfo ''host-a.example''
             (testNode 6 ''exit-a'' [] [siteASR1Addr] [siteASR1Addr, defaultRoute4, defaultRoute6] [])"
definition exitB :: Node where
  "exitB = withHostinfo ''host-b.example''
             (testNode 7 ''exit-b'' [] [siteBSR1Addr]
                [siteBSR1Addr, defaultRoute4, defaultRoute6, siteBSubnet] [])"

definition exitNetMap :: NetworkMap where
  "exitNetMap = \<lparr>SelfNode = None, Peers = [exitA, exitB], DomainAuditLogID = [], Expiry = None\<rparr>"

definition noParse :: "string \<Rightarrow> string + 256 word" where
  "noParse s = Inl ''invalid''"

definition otherAddrPeer :: Node where
  "otherAddrPeer = withHostinfo ''peer''
                     (testNode 5 ''peer'' [] [siteASR1Addr] [siteASR1Addr, siteASR2Addr] [])"

definition otherAddrNetMap :: NetworkMap where
  "otherAddrNetMap =
     \<lparr>SelfNode = None, Peers = [otherAddrPeer], DomainAuditLogID = [], Expiry = None\<rparr>"

definition toyParse :: "string \<Rightarrow> string + 256 word" where
  "toyParse s = (if s = ''node-id'' then Inr 11 else if s = ''domain-id'' then Inr 22
                 else Inl ''invalid'')"

definition auditSelf :: Node where
  "auditSelf = (testNode 9 ''self'' [] [siteBSR2Addr] [siteBSR2Addr] [])
     \<lparr>CapMap := [CapabilityDataPlaneAuditLogs \<mapsto> []], DataPlaneAuditLogID := ''node-id''\<rparr>"

definition auditNetMap :: "string \<Rightarrow> NetworkMap" where
  "auditNetMap domainID =
     \<lparr>SelfNode = Some auditSelf, Peers = [], DomainAuditLogID = domainID, Expiry = None\<rparr>"

section \<open>The backend orchestrator (package ipnlocal)\<close>

text \<open>
  The orchestrator itself (\<^verbatim>\<open>LocalBackend\<close>) is not among the sources at hand; its test
  (\<^verbatim>\<open>TestStateMachine\<close>, \<^verbatim>\<open>TestEditPrefsHasNoKeys\<close>, \<^verbatim>\<open>TestWGEngineStatusRace\<close>) and the
  mock control client of that test are. The definitions below model the orchestrator from
  the specification (sections 3, 4.1, 7 and 8) and agree with the calls and notifications
  the test asserts for the operations they cover: start, edit-preferences, logout, the
  receipt of a network map, and the receipt of an engine status.
\<close>

subsection \<open>Data\<close>

text \<open>
  Modelled from the spec: the derived connection state of section 3 (\<^verbatim>\<open>ipn.State\<close>, whose
  declaration is missing), with the names the test uses.
\<close>

datatype State = NoState | NeedsLogin | NeedsMachineAuth | Stopped | Starting | Running

text \<open>
  Modelled from the spec: the persisted identity embedded in the preferences (section 3;
  \<^verbatim>\<open>persist.Persist\<close> is missing), with the field names the test uses.
\<close>

record Persist =
  PrivateNodeKey :: "256 word"
  OldPrivateNodeKey :: "256 word"
  NetworkLockKey :: "256 word"
  Persist_NodeID :: string
  LoginName :: string

text \<open>
  Modelled from the spec: the preferences of section 3 (\<^verbatim>\<open>ipn.Prefs\<close> is missing).
\<close>

record Prefs =
  ControlURL :: string
  WantRunning :: bool
  LoggedOut :: bool
  Prefs_Hostname :: string
  Persist :: Persist

text \<open>
  Modelled from the spec: the preference edit of sections 3 and 6 (\<^verbatim>\<open>ipn.MaskedPrefs\<close> is
  missing): a preferences value and one flag per field; only flagged fields are applied.
  \<open>PersistSet\<close> marks an edit that touches the protected key material.
\<close>

record MaskedPrefs =
  mp_Prefs :: Prefs
  ControlURLSet :: bool
  WantRunningSet :: bool
  LoggedOutSet :: bool
  HostnameSet :: bool
  PersistSet :: bool

text \<open>
  Modelled from the spec: the notification of sections 3 and 6 (\<^verbatim>\<open>ipn.Notify\<close> is
  missing), a record of optional fields.
\<close>

record Notify =
  n_State :: "State option"
  n_Prefs :: "Prefs option"
  n_BrowseToURL :: "string option"
  n_LoginFinished :: bool

text \<open>
  The method names the test's \<^verbatim>\<open>mockControl\<close> records with \<^verbatim>\<open>called\<close>.
\<close>

datatype Call = CallNew | CallLogin | CallLogout | CallPause | CallUnpause | CallShutdown

text \<open>
  Modelled from the spec: the orchestrator's state (sections 2 and 3; \<^verbatim>\<open>LocalBackend\<close> is
  missing). \<open>ccGen\<close> numbers the control-session handles, \<open>0\<close> before the first start;
  \<open>ccPaused\<close> is the current handle's paused flag and \<open>ccCalls\<close> every command issued so
  far with the handle it went to, as \<^verbatim>\<open>mockControl\<close> keeps them. \<open>relayLink\<close> is the
  input ``engine has relay link'' of the transition table and \<open>notifies\<close> the
  notifications emitted so far. The ``engine blocked'' flag of section 8 is not modelled:
  the specification says nothing about it but the one sentence there.
\<close>

record LocalBackend =
  prefs :: Prefs
  state :: State
  netMap :: "NetworkMap option"
  keyExpired :: bool
  relayLink :: bool
  ccGen :: nat
  ccPaused :: bool
  ccCalls :: "(nat \<times> Call) list"
  notifies :: "Notify list"

text \<open>
  Modelled from the spec: the preferences of a fresh profile, logged out and not running
  (scenario A of section 8; the test asserts both flags on the first notification).
\<close>

definition newPrefs :: Prefs where
  "newPrefs =
     \<lparr>ControlURL = [], WantRunning = False, LoggedOut = True, Prefs_Hostname = [],
      Persist = \<lparr>PrivateNodeKey = 0, OldPrivateNodeKey = 0, NetworkLockKey = 0,
                 Persist_NodeID = [], LoginName = []\<rparr>\<rparr>"

text \<open>
  Modelled from the spec: the orchestrator before the first start: a fresh profile, no
  session, no network map, state \<open>NoState\<close> (last row of the transition table).
\<close>

definition newLocalBackend :: LocalBackend where
  "newLocalBackend =
     \<lparr>prefs = newPrefs, state = NoState, netMap = None, keyExpired = False,
      relayLink = False, ccGen = 0, ccPaused = False, ccCalls = [], notifies = []\<rparr>"

subsection \<open>Notifications and control-session commands\<close>

text \<open>
  Modelled from the spec: a notification that carries only the new state (section 3).
\<close>

definition notifyState :: "State \<Rightarrow> Notify" where
  "notifyState s =
     \<lparr>n_State = Some s, n_Prefs = None, n_BrowseToURL = None, n_LoginFinished = False\<rparr>"

text \<open>
  Modelled from the spec: a notification that carries only the preferences (section 3).
\<close>

definition notifyPrefs :: "Prefs \<Rightarrow> Notify" where
  "notifyPrefs p =
     \<lparr>n_State = None, n_Prefs = Some p, n_BrowseToURL = None, n_LoginFinished = False\<rparr>"

text \<open>
  Modelled from the spec: emission of a notification to the single subscriber, in order,
  none dropped (section 5).
\<close>

definition send :: "Notify \<Rightarrow> LocalBackend \<Rightarrow> LocalBackend" where
  "send n b = b\<lparr>notifies := notifies b @ [n]\<rparr>"

text \<open>\<^verbatim>\<open>mockControl.called\<close>, on the current handle.\<close>

definition called :: "Call \<Rightarrow> LocalBackend \<Rightarrow> LocalBackend" where
  "called c b = b\<lparr>ccCalls := ccCalls b @ [(ccGen b, c)]\<rparr>"

text \<open>
  \<^verbatim>\<open>mockControl.SetPaused\<close>, which records a call only when the flag changes. Without a
  session there is nothing to call.
\<close>

definition SetPaused :: "bool \<Rightarrow> LocalBackend \<Rightarrow> LocalBackend" where
  "SetPaused paused b =
     (if ccGen b = 0 then b
      else if ccPaused b = paused then b
      else called (if paused then CallPause else CallUnpause) (b\<lparr>ccPaused := paused\<rparr>))"

text \<open>
  The test's control-client getter: a new \<^verbatim>\<open>mockControl\<close>, not paused, whose first
  recorded call is \<^verbatim>\<open>New\<close>. It becomes the current handle.
\<close>

definition newClient :: "LocalBackend \<Rightarrow> LocalBackend" where
  "newClient b = called CallNew (b\<lparr>ccGen := Suc (ccGen b), ccPaused := False\<rparr>)"

subsection \<open>The state machine\<close>

text \<open>
  Modelled from the spec: ``machine-authorized'' of the transition table: the map has a
  self node and it is authorized.
\<close>

definition machineAuthorized :: "NetworkMap \<Rightarrow> bool" where
  "machineAuthorized nm = (case SelfNode nm of None \<Rightarrow> False | Some n \<Rightarrow> MachineAuthorized n)"

text \<open>
  Modelled from the spec: the state transition table of section 4.1. Before the first
  start the state is \<open>NoState\<close>; without a map, or logged out, \<open>NeedsLogin\<close>; with an
  expired key \<open>NeedsLogin\<close> (section 8: always); then \<open>NeedsMachineAuth\<close>, \<open>Stopped\<close>,
  \<open>Starting\<close> and \<open>Running\<close> as the rows say.
\<close>

definition nextState :: "LocalBackend \<Rightarrow> State" where
  "nextState b =
     (if ccGen b = 0 then NoState
      else case netMap b of
        None \<Rightarrow> NeedsLogin
      | Some nm \<Rightarrow>
          if LoggedOut (prefs b) then NeedsLogin
          else if keyExpired b then NeedsLogin
          else if \<not> machineAuthorized nm then NeedsMachineAuth
          else if \<not> WantRunning (prefs b) then Stopped
          else if relayLink b then Running
          else Starting)"

text \<open>
  Modelled from the spec: entering a state. A relay link counts only while the state is
  \<open>Starting\<close> or \<open>Running\<close>, so that each new \<open>Starting\<close> waits for its own relay-link
  signal (section 8: one transition per rising edge).
\<close>

definition enterState :: "State \<Rightarrow> LocalBackend \<Rightarrow> LocalBackend" where
  "enterState new b =
     b\<lparr>state := new,
       relayLink := (relayLink b \<and> (new = Starting \<or> new = Running))\<rparr>"

text \<open>
  Modelled from the spec: the pause policy of section 4.1, as the test pins it: the
  session is paused while the state is \<open>Stopped\<close> and a network map is held, and not
  paused otherwise (still logged out, or waiting for the first map).
\<close>

definition pausePolicy :: "LocalBackend \<Rightarrow> LocalBackend" where
  "pausePolicy b = SetPaused (state b = Stopped \<and> netMap b \<noteq> None) b"

text \<open>
  Modelled from the spec: recomputation of the connection state after a mutation
  (sections 3 and 4.1): when the table gives a state other than the current one it is
  entered and a state notification is emitted; then the pause policy is applied.
\<close>

definition stateMachine :: "LocalBackend \<Rightarrow> LocalBackend" where
  "stateMachine b =
     (let new = nextState b
      in pausePolicy (if new = state b then b else send (notifyState new) (enterState new b)))"

subsection \<open>The operations\<close>

text \<open>
  Modelled from the spec: start() of section 4.1. The previous session, if any, is shut
  down (the test accepts no other call on the discarded handle) and a new one created; a
  profile that holds a node key logs in with it (the test's ``Start4'' and ``Start5''); the
  current preferences and then the computed state are emitted, whether or not the state
  changed.
\<close>

definition Start :: "LocalBackend \<Rightarrow> LocalBackend" where
  "Start b =
     (let b1 = (if ccGen b = 0 then b else called CallShutdown b);
          b2 = newClient b1;
          b3 = (if PrivateNodeKey (Persist (prefs b2)) \<noteq> 0 then called CallLogin b2 else b2);
          b4 = send (notifyPrefs (prefs b3)) b3;
          new = nextState b4
      in pausePolicy (send (notifyState new) (enterState new b4)))"

text \<open>
  Modelled from the spec: the merge of an edit: only flagged fields are taken from the
  edit's preferences value (sections 4.1 and 6).
\<close>

definition ApplyEdits :: "Prefs \<Rightarrow> MaskedPrefs \<Rightarrow> Prefs" where
  "ApplyEdits p mp =
     p\<lparr>ControlURL := (if ControlURLSet mp then ControlURL (mp_Prefs mp) else ControlURL p),
       WantRunning := (if WantRunningSet mp then WantRunning (mp_Prefs mp) else WantRunning p),
       LoggedOut := (if LoggedOutSet mp then LoggedOut (mp_Prefs mp) else LoggedOut p),
       Prefs_Hostname :=
         (if HostnameSet mp then Prefs_Hostname (mp_Prefs mp) else Prefs_Hostname p)\<rparr>"

text \<open>
  Modelled from the spec: the preferences as handed to a caller, without key material:
  \<^verbatim>\<open>TestEditPrefsHasNoKeys\<close> requires the private key, the old private key and the
  network-lock key of the value that edit-preferences returns to be zero.
\<close>

definition stripKeysFromPrefs :: "Prefs \<Rightarrow> Prefs" where
  "stripKeysFromPrefs p =
     p\<lparr>Persist := (Persist p)\<lparr>PrivateNodeKey := 0, OldPrivateNodeKey := 0,
                                NetworkLockKey := 0\<rparr>\<rparr>"

text \<open>
  Modelled from the spec: edit-preferences of section 4.1. An edit that touches the
  protected key material is refused and leaves the state alone (section 7). Otherwise the
  flagged fields are merged; a change of WantRunning from false to true issues a login to
  the session (the test expects \<^verbatim>\<open>Login\<close> then \<^verbatim>\<open>unpause\<close>); the state is recomputed,
  which emits the state notification when the state changes; then the preferences
  notification is emitted. This is the order the test asserts, state first, and the one
  section 9 records; section 4.1 words it the other way round. The caller gets the new
  preferences without keys.
\<close>

definition EditPrefs :: "LocalBackend \<Rightarrow> MaskedPrefs \<Rightarrow> string + LocalBackend \<times> Prefs" where
  "EditPrefs b mp =
     (if PersistSet mp then Inl ''edit touches protected key material''
      else
        let oldp = prefs b;
            newp = ApplyEdits oldp mp;
            b1 = b\<lparr>prefs := newp\<rparr>;
            b2 = (if \<not> WantRunning oldp \<and> WantRunning newp \<and> ccGen b \<noteq> 0
                  then called CallLogin b1 else b1);
            b3 = stateMachine b2;
            b4 = send (notifyPrefs newp) b3
        in Inr (b4, stripKeysFromPrefs newp))"

text \<open>
  Modelled from the spec: logout of section 4.1. In \<open>NeedsLogin\<close> it does nothing.
  Otherwise it needs a session (section 7: operating without one aborts) and runs the
  phases of the specification, with the calls and the five notifications of the test:
  stopped, preferences logged out, the old session logged out and shut down, a new session,
  its state, the reset preferences, and the final \<open>NeedsLogin\<close>.
\<close>

definition Logout :: "LocalBackend \<Rightarrow> LocalBackend outcome" where
  "Logout b =
     (if state b = NeedsLogin then Returns b
      else if ccGen b = 0 then Panics
      else
        let p1 = (prefs b)\<lparr>WantRunning := False, LoggedOut := True\<rparr>;
            b1 = pausePolicy (send (notifyState Stopped) (enterState Stopped (b\<lparr>prefs := p1\<rparr>)));
            b2 = send (notifyPrefs p1) b1;
            b3 = called CallLogout b2;
            b4 = pausePolicy (b3\<lparr>netMap := None, keyExpired := False\<rparr>);
            b5 = newClient (called CallShutdown b4);
            b6 = send (notifyState NoState) (enterState NoState (b5\<lparr>prefs := newPrefs\<rparr>));
            b7 = send (notifyPrefs newPrefs) b6
        in Returns (pausePolicy (send (notifyState NeedsLogin) (enterState NeedsLogin b7))))"

text \<open>
  Modelled from the spec: the key of a map has expired when the map carries an expiry and
  it lies before the current time (the clock is an argument, section 9).
\<close>

definition mapExpired :: "int \<Rightarrow> NetworkMap \<Rightarrow> bool" where
  "mapExpired now nm = (case Expiry nm of None \<Rightarrow> False | Some t \<Rightarrow> t < now)"

text \<open>
  Modelled from the spec: the asynchronous status handler of section 4.1, for a status
  that carries a network map and neither a login completion, a URL nor an error: the map
  is stored, whether its key has expired is noted, and the state is recomputed.
\<close>

definition SetControlClientStatus :: "int \<Rightarrow> NetworkMap \<Rightarrow> LocalBackend \<Rightarrow> LocalBackend" where
  "SetControlClientStatus now nm b =
     stateMachine (b\<lparr>netMap := Some nm, keyExpired := mapExpired now nm\<rparr>)"

text \<open>
  Modelled from the spec: the asynchronous engine-status handler of section 4.1. A status
  with a relay count above zero that arrives in \<open>Starting\<close> with WantRunning true
  establishes the relay link; the state is recomputed.
\<close>

definition setWgengineStatus :: "int \<Rightarrow> LocalBackend \<Rightarrow> LocalBackend" where
  "setWgengineStatus DERPs b =
     stateMachine
       (if DERPs > 0 \<and> state b = Starting \<and> WantRunning (prefs b)
        then b\<lparr>relayLink := True\<rparr> else b)"

text \<open>
  The invariant of the orchestrator between two operations: the state is what the table
  gives, and a relay link is held only in \<open>Starting\<close> or \<open>Running\<close>.
\<close>

definition settled :: "LocalBackend \<Rightarrow> bool" where
  "settled b =
     (state b = nextState b \<and>
      (relayLink b \<longrightarrow> state b = Starting \<or> state b = Running))"

subsection \<open>Concrete backends\<close>

text \<open>
  The test's situation before ``WantRunning -> false'': started, logged in as user1 with a
  node key, WantRunning true, a map whose self node is authorized, state \<open>Starting\<close>.
\<close>

definition authorizedMap :: "int option \<Rightarrow> NetworkMap" where
  "authorizedMap expiry =
     \<lparr>SelfNode = Some (testNode 1 ''node1'' [] [] [] []), Peers = [], DomainAuditLogID = [],
      Expiry = expiry\<rparr>"

definition loggedInPrefs :: Prefs where
  "loggedInPrefs =
     \<lparr>ControlURL = ''https://localhost:1/'', WantRunning = True, LoggedOut = False,
      Prefs_Hostname = [],
      Persist = \<lparr>PrivateNodeKey = 1, OldPrivateNodeKey = 2, NetworkLockKey = 0,
                 Persist_NodeID = ''node1'', LoginName = ''user1''\<rparr>\<rparr>"

definition loggedInBackend :: LocalBackend where
  "loggedInBackend =
     \<lparr>prefs = loggedInPrefs, state = Starting, netMap = Some (authorizedMap None),
      keyExpired = False, relayLink = False, ccGen = 1, ccPaused = False,
      ccCalls = [], notifies = []\<rparr>"

text \<open>The two edits of the test that flip WantRunning, and the one that sets the hostname.\<close>

definition noEdit :: MaskedPrefs where
  "noEdit = \<lparr>mp_Prefs = newPrefs, ControlURLSet = False, WantRunningSet = False,
             LoggedOutSet = False, HostnameSet = False, PersistSet = False\<rparr>"

definition editWantRunning :: "bool \<Rightarrow> MaskedPrefs" where
  "editWantRunning w = noEdit\<lparr>mp_Prefs := newPrefs\<lparr>WantRunning := w\<rparr>, WantRunningSet := True\<rparr>"

definition editHostname :: "string \<Rightarrow> MaskedPrefs" where
  "editHostname h = noEdit\<lparr>mp_Prefs := newPrefs\<lparr>Prefs_Hostname := h\<rparr>, HostnameSet := True\<rparr>"

text \<open>
  The backend after the test's ``Logout'' from that situation, with the calls and the
  five notifications the test asserts; the backend after its ``WantRunning -> false''; and
  the backend of \<^verbatim>\<open>TestEditPrefsHasNoKeys\<close>, not started, whose preferences hold a
  private and an old private node key.
\<close>

definition loggedOutBackend :: LocalBackend where
  "loggedOutBackend =
     \<lparr>prefs = newPrefs, state = NeedsLogin, netMap = None, keyExpired = False,
      relayLink = False, ccGen = 2, ccPaused = False,
      ccCalls = [(1, CallPause), (1, CallLogout), (1, CallUnpause), (1, CallShutdown),
                 (2, CallNew)],
      notifies = [notifyState Stopped,
                  notifyPrefs (loggedInPrefs\<lparr>WantRunning := False, LoggedOut := True\<rparr>),
                  notifyState NoState, notifyPrefs newPrefs, notifyState NeedsLogin]\<rparr>"

definition stoppedPrefs :: Prefs where
  "stoppedPrefs = loggedInPrefs\<lparr>WantRunning := False\<rparr>"

definition stoppedBackend :: LocalBackend where
  "stoppedBackend =
     loggedInBackend\<lparr>prefs := stoppedPrefs, state := Stopped, ccPaused := True,
                     ccCalls := [(1, CallPause)],
                     notifies := [notifyState Stopped, notifyPrefs stoppedPrefs]\<rparr>"

definition keyedPrefs :: Prefs where
  "keyedPrefs =
     \<lparr>ControlURL = [], WantRunning = False, LoggedOut = False, Prefs_Hostname = [],
      Persist = \<lparr>PrivateNodeKey = 1, OldPrivateNodeKey = 2, NetworkLockKey = 0,
                 Persist_NodeID = [], LoginName = []\<rparr>\<rparr>"

definition keyedBackend :: LocalBackend where
  "keyedBackend = newLocalBackend\<lparr>prefs := keyedPrefs\<rparr>"

section \<open>Properties of the translator\<close>

subsection \<open>The loops\<close>

lemmas code_defs = WGCfg_def WGCfg_logIDs_def GetAddresses_def logList_def Let_def
  haSubnetRouterAllowedIPs_def cidrIsSubnet_def Bits_def IsSingleIP_def IsValid_def
  AllowSubnetRoutes_def nodeDebugName_def seenLookup_def HasCap_def zeroNetworkLogging_def

lemma cidrIsSubnet_loop_iff: "cidrIsSubnet_loop cidr xs = (cidr \<notin> set xs)"
  by (induction xs) auto

lemma cidrIsSubnet_iff:
  "cidrIsSubnet node a = (Bits a \<noteq> 0 \<and> (\<not> IsSingleIP a \<or> a \<notin> set (Addresses node)))"
  by (auto simp: cidrIsSubnet_def cidrIsSubnet_loop_iff)

lemma selfIsSubnetRouter_iff:
  "selfIsSubnetRouter s xs = (\<exists>a \<in> set xs. cidrIsSubnet s a)"
  by (induction xs) auto

lemma tagLoopInner_iff: "tagLoopInner pt ots = (pt \<in> set ots)"
  by (induction ots) auto

lemma hasSharedTag_iff: "hasSharedTag pts ots = (set pts \<inter> set ots \<noteq> {})"
  by (induction pts) (auto simp: tagLoopInner_iff)

lemma seenLookup_upd:
  "seenLookup (seen(a \<mapsto> True)) r = (r = a \<or> seenLookup seen r)"
  by (auto simp: seenLookup_def)

lemma seenLookup_markSeen:
  "seenLookup (markSeen xs seen) r = (r \<in> set xs \<or> seenLookup seen r)"
  by (induction xs arbitrary: seen) (auto simp: seenLookup_upd)

lemma seenLookup_empty: "seenLookup Map.empty r = False"
  by (simp add: seenLookup_def)

lemma addRoutes_seen:
  "seenLookup (snd (addRoutes rs (acc, seen))) r = (seenLookup seen r \<or> r \<in> set rs)"
  by (induction rs arbitrary: acc seen) (auto simp: seenLookup_upd)

lemma addRoutes_set:
  "set (fst (addRoutes rs (acc, seen))) = set acc \<union> {r \<in> set rs. \<not> seenLookup seen r}"
  by (induction rs arbitrary: acc seen) (auto simp: seenLookup_upd)

lemma addRoutes_distinct:
  "distinct acc \<Longrightarrow> (\<forall>r \<in> set acc. seenLookup seen r) \<Longrightarrow>
   distinct (fst (addRoutes rs (acc, seen)))"
proof (induction rs arbitrary: acc seen)
  case Nil
  then show ?case by simp
next
  case (Cons a rs)
  show ?case
  proof (cases "seenLookup seen a")
    case True
    then show ?thesis using Cons by simp
  next
    case False
    have d: "distinct (acc @ [a])" using Cons.prems False by auto
    have m: "\<forall>r \<in> set (acc @ [a]). seenLookup (seen(a \<mapsto> True)) r"
      using Cons.prems by (auto simp: seenLookup_upd)
    have e: "addRoutes (a # rs) (acc, seen) = addRoutes rs (acc @ [a], seen(a \<mapsto> True))"
      using False by simp
    show ?thesis using Cons.IH[OF d m] by (simp only: e)
  qed
qed

lemma haLoop_seen:
  "seenLookup (snd (haLoop peer os (acc, seen))) r =
     (seenLookup seen r \<or> (\<exists>other \<in> set os. contributes peer other \<and> r \<in> set (PrimaryRoutes other)))"
proof (induction os arbitrary: acc seen)
  case Nil
  show ?case by simp
next
  case (Cons x os)
  obtain acc' seen' where a: "addRoutes (PrimaryRoutes x) (acc, seen) = (acc', seen')"
    by (cases "addRoutes (PrimaryRoutes x) (acc, seen)")
  have s: "seenLookup seen' r = (seenLookup seen r \<or> r \<in> set (PrimaryRoutes x))"
    using addRoutes_seen[of "PrimaryRoutes x" acc seen r] a by simp
  show ?case
    using Cons.IH[of acc seen] Cons.IH[of "acc'" "seen'"] a s
    by (auto simp: contributes_def hasSharedTag_iff)
qed

lemma addRoutes_inv:
  "\<forall>r \<in> set acc. seenLookup seen r \<Longrightarrow>
   \<forall>r \<in> set (fst (addRoutes rs (acc, seen))). seenLookup (snd (addRoutes rs (acc, seen))) r"
  by (auto simp: addRoutes_set addRoutes_seen)

lemma haLoop_set:
  "set (fst (haLoop peer os (acc, seen))) =
     set acc \<union> {r. \<not> seenLookup seen r \<and>
                  (\<exists>other \<in> set os. contributes peer other \<and> r \<in> set (PrimaryRoutes other))}"
proof (induction os arbitrary: acc seen)
  case Nil
  show ?case by simp
next
  case (Cons x os)
  obtain acc' seen' where a: "addRoutes (PrimaryRoutes x) (acc, seen) = (acc', seen')"
    by (cases "addRoutes (PrimaryRoutes x) (acc, seen)")
  have s: "\<And>r. seenLookup seen' r = (seenLookup seen r \<or> r \<in> set (PrimaryRoutes x))"
    using addRoutes_seen[of "PrimaryRoutes x" acc seen] a by simp
  have t: "set acc' = set acc \<union> {r \<in> set (PrimaryRoutes x). \<not> seenLookup seen r}"
    using addRoutes_set[of "PrimaryRoutes x" acc seen] a by simp
  show ?case
  proof (cases "contributes peer x")
    case True
    then have "haLoop peer (x # os) (acc, seen) = haLoop peer os (acc', seen')"
      using a by (simp add: contributes_def hasSharedTag_iff)
    then show ?thesis
      using Cons.IH[of "acc'" "seen'"] s t True by auto
  next
    case False
    then have "haLoop peer (x # os) (acc, seen) = haLoop peer os (acc, seen)"
      by (auto simp: contributes_def hasSharedTag_iff)
    then show ?thesis
      using Cons.IH[of acc seen] False by auto
  qed
qed

lemma haLoop_distinct:
  "distinct acc \<Longrightarrow> \<forall>r \<in> set acc. seenLookup seen r \<Longrightarrow>
   distinct (fst (haLoop peer os (acc, seen)))"
proof (induction os arbitrary: acc seen)
  case Nil
  then show ?case by simp
next
  case (Cons x os)
  obtain acc' seen' where a: "addRoutes (PrimaryRoutes x) (acc, seen) = (acc', seen')"
    by (cases "addRoutes (PrimaryRoutes x) (acc, seen)")
  have d: "distinct acc'"
    using addRoutes_distinct[OF Cons.prems, of "PrimaryRoutes x"] a by simp
  have m: "\<forall>r \<in> set acc'. seenLookup seen' r"
    using addRoutes_inv[OF Cons.prems(2), of "PrimaryRoutes x"] a by simp
  show ?case
    using Cons.IH[OF Cons.prems] Cons.IH[OF d m] a by simp
qed

lemma haSubnetRouterAllowedIPs_set:
  "set (haSubnetRouterAllowedIPs (SelfNode nm) peer allPeers) =
     (if selfAdvertisesSubnetRoute nm \<and> Tags peer \<noteq> []
      then haGroupRoutes allPeers peer - set (AllowedIPs peer) else {})"
  by (auto simp: haSubnetRouterAllowedIPs_def selfAdvertisesSubnetRoute_def haGroupRoutes_def
        selfIsSubnetRouter_iff cidrIsSubnet_iff haLoop_set seenLookup_markSeen seenLookup_empty
        split: option.splits)

lemma haSubnetRouterAllowedIPs_distinct:
  "distinct (haSubnetRouterAllowedIPs selfNode peer allPeers)"
  by (auto simp: haSubnetRouterAllowedIPs_def haLoop_distinct split: option.splits)

lemma allowedIPsLoop_fst:
  "fst (allowedIPsLoop peer flags exitNode xs (acc, d, e, s)) =
     acc @ filter (keptByLoop peer flags exitNode) xs"
  by (induction xs arbitrary: acc d e s) (auto simp: keptByLoop_def)

lemma allowedIPsLoop_skipped:
  "set (fst (snd (snd (allowedIPsLoop peer flags exitNode xs (acc, d, e, s)))))
     \<subseteq> insert peer (set e)
   \<and> set (snd (snd (snd (allowedIPsLoop peer flags exitNode xs (acc, d, e, s)))))
     \<subseteq> insert peer (set s)"
proof (induction xs arbitrary: acc d e s)
  case Nil
  show ?case by auto
next
  case (Cons a xs)
  show ?case
    using Cons.IH[of acc d e s] Cons.IH[of acc True "e @ [peer]" s]
      Cons.IH[of acc d e "s @ [peer]"] Cons.IH[of "acc @ [a]" d e s]
    by auto
qed

subsection \<open>What a call that returns has computed, and which calls return\<close>

lemma nodeDebugName_Panics_iff: "(nodeDebugName n = Panics) = (Hostinfo n = None)"
  by (simp add: nodeDebugName_def split: option.splits)

lemma peersLoop_Cons:
  "peersLoop nm flags exitNode (p # ps) st =
     (if \<not> peerIncluded p then
        peersLoop nm flags exitNode ps
          (if Expired p \<and> \<not> (DiscoKey p = 0 \<and> HomeDERP p = 0 \<and> \<not> IsWireGuardOnly p)
           then st\<lparr>ls_skippedExpired := ls_skippedExpired st @ [p]\<rparr>
           else st\<lparr>ls_logs := ls_logs st @ [SkippedPeerNoDERPOrDisco (Key p)]\<rparr>)
      else if haAdded nm flags p \<noteq> [] \<and> Hostinfo p = None then Panics
      else
        peersLoop nm flags exitNode ps
          (st\<lparr>ls_Peers := ls_Peers st @ [translatePeer nm flags exitNode p],
              ls_skippedExitNode :=
                fst (snd (snd (allowedIPsLoop p flags exitNode (AllowedIPs p)
                  ([], False, ls_skippedExitNode st, ls_skippedSubnetRouter st)))),
              ls_skippedSubnetRouter :=
                snd (snd (snd (allowedIPsLoop p flags exitNode (AllowedIPs p)
                  ([], False, ls_skippedExitNode st, ls_skippedSubnetRouter st)))),
              ls_logs := ls_logs st @
                (case nodeDebugName p of
                   Panics \<Rightarrow> []
                 | Returns name \<Rightarrow>
                     if haAdded nm flags p \<noteq> []
                     then [AddingHAAllowedIPs (length (haAdded nm flags p)) name (haAdded nm flags p)]
                     else [])\<rparr>))"
proof -
  obtain f d e s where l: "allowedIPsLoop p flags exitNode (AllowedIPs p)
      ([], False, ls_skippedExitNode st, ls_skippedSubnetRouter st) = (f, d, e, s)"
    by (metis prod_cases4)
  have f: "f = filter (keptByLoop p flags exitNode) (AllowedIPs p)"
    using allowedIPsLoop_fst[of p flags exitNode "AllowedIPs p" "[]" False
        "ls_skippedExitNode st" "ls_skippedSubnetRouter st"] l by simp
  show ?thesis
    using l f
    by (auto simp: peerIncluded_def translatePeer_def haAdded_def Let_def nodeDebugName_def
          split: option.splits)
qed

lemma peersLoop_Peers:
  "peersLoop nm flags exitNode ps st = Returns st' \<Longrightarrow>
   ls_Peers st' = ls_Peers st @ map (translatePeer nm flags exitNode) (filter peerIncluded ps)"
proof (induction ps arbitrary: st)
  case Nil
  then show ?case by simp
next
  case (Cons p ps)
  show ?case
    using Cons.prems
    by (auto simp only: peersLoop_Cons split: if_splits dest!: Cons.IH) simp_all
qed

lemma peersLoop_Panics_iff:
  "(peersLoop nm flags exitNode ps st = Panics) =
     (\<exists>p \<in> set ps. peerIncluded p \<and> haAdded nm flags p \<noteq> [] \<and> Hostinfo p = None)"
proof (induction ps arbitrary: st)
  case Nil
  show ?case by simp
next
  case (Cons p ps)
  show ?case
  proof (cases "peerIncluded p")
    case False
    then show ?thesis
      by (simp add: peersLoop_Cons Cons.IH del: peersLoop.simps)
  next
    case True
    then show ?thesis
      by (cases "haAdded nm flags p \<noteq> [] \<and> Hostinfo p = None")
         (auto simp add: peersLoop_Cons Cons.IH simp del: peersLoop.simps)
  qed
qed

lemma peersLoop_skipped:
  "peersLoop nm flags exitNode ps st = Returns st' \<Longrightarrow>
   set (ls_skippedExitNode st') \<subseteq> set (ls_skippedExitNode st) \<union> set ps
   \<and> set (ls_skippedSubnetRouter st') \<subseteq> set (ls_skippedSubnetRouter st) \<union> set ps
   \<and> set (ls_skippedExpired st') \<subseteq> set (ls_skippedExpired st) \<union> set ps"
proof (induction ps arbitrary: st)
  case Nil
  then show ?case by simp
next
  case (Cons p ps)
  note k = allowedIPsLoop_skipped[of p flags exitNode "AllowedIPs p" "[]" False
      "ls_skippedExitNode st" "ls_skippedSubnetRouter st"]
  show ?case
    using Cons.prems k
    by (auto simp only: peersLoop_Cons split: if_splits dest!: Cons.IH) auto
qed

lemma logListWriter_Returns:
  "\<forall>n \<in> set nodes. Hostinfo n \<noteq> None \<Longrightarrow> \<exists>w. logListWriter nodes = Returns w"
  by (induction nodes) (auto simp: nodeDebugName_def split: option.splits)

lemma logList_Returns:
  "\<not> logfRunsWriter \<or> (\<forall>n \<in> set nodes. Hostinfo n \<noteq> None) \<Longrightarrow>
   \<exists>l. logList logfRunsWriter title nodes = Returns l"
proof -
  assume a: "\<not> logfRunsWriter \<or> (\<forall>n \<in> set nodes. Hostinfo n \<noteq> None)"
  show ?thesis
  proof (cases logfRunsWriter)
    case False
    then show ?thesis by (simp add: logList_def Let_def)
  next
    case True
    then have "\<forall>n \<in> set (take 5 nodes). Hostinfo n \<noteq> None"
      using a by (meson in_set_takeD)
    then obtain w where "logListWriter (take 5 nodes) = Returns w"
      using logListWriter_Returns by blast
    then show ?thesis by (simp add: logList_def Let_def)
  qed
qed

lemma WGCfg_Returns:
  assumes "WGCfg parse pk (Some nm) logfRunsWriter flags exitNode = Returns (cfg, err, logs)"
  shows "cfg = \<lparr>Cfg_PrivateKey = pk,
                Cfg_Addresses = GetAddresses nm,
                Cfg_Peers = map (translatePeer nm flags exitNode) (filter peerIncluded (Peers nm)),
                Cfg_NetworkLogging = fst (WGCfg_logIDs parse nm)\<rparr>"
    and "err = None"
proof -
  obtain nl logs0 where i: "WGCfg_logIDs parse nm = (nl, logs0)"
    by (cases "WGCfg_logIDs parse nm")
  let ?st0 = "\<lparr>ls_Peers = [], ls_skippedExitNode = [], ls_skippedSubnetRouter = [],
               ls_skippedExpired = [], ls_logs = logs0\<rparr>"
  obtain st where st: "peersLoop nm flags exitNode (Peers nm) ?st0 = Returns st"
    using assms i by (cases "peersLoop nm flags exitNode (Peers nm) ?st0") (simp_all add: WGCfg_def)
  have c: "cfg = \<lparr>Cfg_PrivateKey = pk, Cfg_Addresses = GetAddresses nm,
                    Cfg_Peers = ls_Peers st, Cfg_NetworkLogging = nl\<rparr> \<and> err = None"
    using assms i st by (simp add: WGCfg_def Let_def split: outcome.splits)
  show "cfg = \<lparr>Cfg_PrivateKey = pk,
                Cfg_Addresses = GetAddresses nm,
                Cfg_Peers = map (translatePeer nm flags exitNode) (filter peerIncluded (Peers nm)),
                Cfg_NetworkLogging = fst (WGCfg_logIDs parse nm)\<rparr>"
    using c peersLoop_Peers[OF st] i by simp
  show "err = None" using c by simp
qed

lemma keptByLoop_entryDropped:
  "keptByLoop peer flags exitNode = (\<lambda>a. \<not> entryDropped peer flags exitNode a)"
  by (rule ext) (auto simp: keptByLoop_def entryDropped_def cidrIsSubnet_iff)

lemma WGCfg_Peers:
  assumes "WGCfg parse pk (Some nm) logfRunsWriter flags exitNode = Returns (cfg, err, logs)"
  shows "Cfg_Peers cfg = map (translatePeer nm flags exitNode) (filter peerIncluded (Peers nm))"
  using WGCfg_Returns(1)[OF assms] by simp

text \<open>
  Whenever \<^verbatim>\<open>WGCfg\<close> returns, the error is nil. It returns for every map in which every
  peer has host info, whatever the logger does, and it panics, whatever the logger does,
  when an included peer for which HA prefixes are added has no host info.
\<close>

lemma WGCfg_error_is_nil:
  assumes "WGCfg parse pk nmp logfRunsWriter flags exitNode = Returns (cfg, err, logs)"
  shows "err = None"
proof (cases nmp)
  case None
  then show ?thesis using assms by (simp add: WGCfg_def)
next
  case (Some nm)
  then show ?thesis using assms WGCfg_Returns(2) by blast
qed

lemma WGCfg_returns_with_hostinfo:
  assumes "\<forall>p \<in> set (Peers nm). Hostinfo p \<noteq> None"
  shows "\<exists>cfg logs. WGCfg parse pk (Some nm) logfRunsWriter flags exitNode = Returns (cfg, None, logs)"
proof -
  obtain nl logs0 where i: "WGCfg_logIDs parse nm = (nl, logs0)"
    by (cases "WGCfg_logIDs parse nm")
  let ?st0 = "\<lparr>ls_Peers = [], ls_skippedExitNode = [], ls_skippedSubnetRouter = [],
               ls_skippedExpired = [], ls_logs = logs0\<rparr>"
  have "peersLoop nm flags exitNode (Peers nm) ?st0 \<noteq> Panics"
    using assms by (auto simp: peersLoop_Panics_iff)
  then obtain st where st: "peersLoop nm flags exitNode (Peers nm) ?st0 = Returns st"
    by (cases "peersLoop nm flags exitNode (Peers nm) ?st0") auto
  have sub: "set (ls_skippedExitNode st) \<subseteq> set (Peers nm)"
            "set (ls_skippedSubnetRouter st) \<subseteq> set (Peers nm)"
            "set (ls_skippedExpired st) \<subseteq> set (Peers nm)"
    using peersLoop_skipped[OF st] by simp_all
  obtain l1 where l1: "logList logfRunsWriter ''skipped unselected exit nodes''
                         (ls_skippedExitNode st) = Returns l1"
    using logList_Returns[of logfRunsWriter "ls_skippedExitNode st"] assms sub(1) by blast
  obtain l2 where l2: "logList logfRunsWriter ''did not accept subnet routes''
                         (ls_skippedSubnetRouter st) = Returns l2"
    using logList_Returns[of logfRunsWriter "ls_skippedSubnetRouter st"] assms sub(2) by blast
  obtain l3 where l3: "logList logfRunsWriter ''skipped expired peers''
                         (ls_skippedExpired st) = Returns l3"
    using logList_Returns[of logfRunsWriter "ls_skippedExpired st"] assms sub(3) by blast
  show ?thesis
    using i st l1 l2 l3 by (simp add: WGCfg_def Let_def)
qed

lemma WGCfg_panics_adding_HA_prefixes:
  assumes "p \<in> set (Peers nm)" and "peerIncluded p" and "haAdded nm flags p \<noteq> []"
    and "Hostinfo p = None"
  shows "WGCfg parse pk (Some nm) logfRunsWriter flags exitNode = Panics"
proof -
  have "peersLoop nm flags exitNode (Peers nm) st = Panics" for st
    using assms by (auto simp: peersLoop_Panics_iff)
  then show ?thesis by (simp add: WGCfg_def split: prod.splits)
qed

subsection \<open>The claims about the translator\<close>

text \<open>
  Claim C7, amended. For every peer that \<^verbatim>\<open>WGCfg\<close> includes, the allowed IPs of the
  configured peer are the entries of the peer's allowed-IP list, in order, without the
  dropped ones, followed by what the HA expansion adds. An entry is dropped when it is a
  default route (prefix length 0) and the peer is not the selected exit node, or when it is
  not a default route, subnet routes are not accepted, and the entry is not a single address
  that is one of the peer's own addresses. Every other entry is kept.
\<close>

theorem WGCfg_allowedIPs_filter:
  assumes "WGCfg parse pk (Some nm) logfRunsWriter flags exitNode = Returns (cfg, err, logs)"
  shows "map Peer_AllowedIPs (Cfg_Peers cfg) =
           map (\<lambda>peer. filter (\<lambda>a. \<not> entryDropped peer flags exitNode a) (AllowedIPs peer)
                        @ haAdded nm flags peer)
               (filter peerIncluded (Peers nm))"
  by (simp add: WGCfg_Peers[OF assms] translatePeer_def keptByLoop_entryDropped comp_def)

theorem WGCfg_allowedIPs_filter_witness:
  "WGCfg noParse 7 (Some exitNetMap) True 0 ''exit-a'' =
     Returns (\<lparr>Cfg_PrivateKey = 7, Cfg_Addresses = [],
               Cfg_Peers = [\<lparr>Peer_PublicKey = 6, Peer_DiscoKey = 0,
                              Peer_AllowedIPs = [siteASR1Addr, defaultRoute4, defaultRoute6],
                              Peer_V4MasqAddr = None, Peer_V6MasqAddr = None, Peer_IsJailed = False\<rparr>,
                            \<lparr>Peer_PublicKey = 7, Peer_DiscoKey = 0,
                              Peer_AllowedIPs = [siteBSR1Addr],
                              Peer_V4MasqAddr = None, Peer_V6MasqAddr = None, Peer_IsJailed = False\<rparr>],
               Cfg_NetworkLogging = zeroNetworkLogging\<rparr>,
              None,
              [LogList ''skipped unselected exit nodes'' 1 (Returns [(''exit-b'', ''exit-b'')]),
               LogList ''did not accept subnet routes'' 1 (Returns [(''exit-b'', ''exit-b'')])])
   \<and> [[siteASR1Addr, defaultRoute4, defaultRoute6], [siteBSR1Addr]] =
       map (\<lambda>peer. filter (\<lambda>a. \<not> entryDropped peer 0 ''exit-a'' a) (AllowedIPs peer)
                    @ haAdded exitNetMap 0 peer)
           (filter peerIncluded (Peers exitNetMap))"
proof -
  have h: "WGCfg noParse 7 (Some exitNetMap) True 0 ''exit-a'' =
     Returns (\<lparr>Cfg_PrivateKey = 7, Cfg_Addresses = [],
               Cfg_Peers = [\<lparr>Peer_PublicKey = 6, Peer_DiscoKey = 0,
                              Peer_AllowedIPs = [siteASR1Addr, defaultRoute4, defaultRoute6],
                              Peer_V4MasqAddr = None, Peer_V6MasqAddr = None, Peer_IsJailed = False\<rparr>,
                            \<lparr>Peer_PublicKey = 7, Peer_DiscoKey = 0,
                              Peer_AllowedIPs = [siteBSR1Addr],
                              Peer_V4MasqAddr = None, Peer_V6MasqAddr = None, Peer_IsJailed = False\<rparr>],
               Cfg_NetworkLogging = zeroNetworkLogging\<rparr>,
              None,
              [LogList ''skipped unselected exit nodes'' 1 (Returns [(''exit-b'', ''exit-b'')]),
               LogList ''did not accept subnet routes'' 1 (Returns [(''exit-b'', ''exit-b'')])])"
    by (simp add: exitNetMap_def exitA_def exitB_def defaultRoute4_def defaultRoute6_def testNode_def
          withHostinfo_def pfx4_def siteASR1Addr_def siteBSR1Addr_def siteBSubnet_def noParse_def
          code_defs)
  show ?thesis using h WGCfg_allowedIPs_filter[OF h] by simp
qed

text \<open>
  Claim C7 as stated fails: \<open>100.64.0.2/32\<close> in the allowed IPs of a peer whose own address
  is \<open>100.64.0.1/32\<close> is neither a default route nor a non-single-address entry, yet
  without subnet-route acceptance the translator drops it (the case ``other node's address''
  of \<^verbatim>\<open>TestCidrIsSubnet\<close>).
\<close>

theorem WGCfg_allowedIPs_filter_counterexample:
  "\<not> statedDropped otherAddrPeer 0 [] siteASR2Addr
   \<and> peerIncluded otherAddrPeer
   \<and> AllowedIPs otherAddrPeer = [siteASR1Addr, siteASR2Addr]
   \<and> WGCfg noParse 7 (Some otherAddrNetMap) True 0 [] =
       Returns (\<lparr>Cfg_PrivateKey = 7, Cfg_Addresses = [],
                 Cfg_Peers = [\<lparr>Peer_PublicKey = 5, Peer_DiscoKey = 0,
                                Peer_AllowedIPs = [siteASR1Addr],
                                Peer_V4MasqAddr = None, Peer_V6MasqAddr = None,
                                Peer_IsJailed = False\<rparr>],
                 Cfg_NetworkLogging = zeroNetworkLogging\<rparr>,
                None,
                [LogList ''did not accept subnet routes'' 1 (Returns [(''peer'', ''peer'')])])"
  by (simp add: otherAddrNetMap_def otherAddrPeer_def testNode_def withHostinfo_def pfx4_def
        siteASR1Addr_def siteASR2Addr_def noParse_def code_defs statedDropped_def peerIncluded_def)

text \<open>
  Claim C8, amended. Whenever \<^verbatim>\<open>WGCfg\<close> returns, the allowed IPs of every included peer
  are its filtered allowed-IP list followed by the added prefixes \<open>haAdded\<close>. When
  subnet-route acceptance is enabled, the self node is valid and has an allowed IP that is
  not a default route and is not a single address among the self node's own addresses, and
  the peer has a tag, the added prefixes are, without repetition, exactly the primary routes
  of the other peers (by node ID) that share a tag with the peer and have primary routes,
  minus the prefixes of the peer's own allowed-IP list; in every other case nothing is added.
\<close>

theorem WGCfg_ha_expansion:
  assumes "WGCfg parse pk (Some nm) logfRunsWriter flags exitNode = Returns (cfg, err, logs)"
  shows "map Peer_AllowedIPs (Cfg_Peers cfg) =
           map (\<lambda>peer. filter (\<lambda>a. \<not> entryDropped peer flags exitNode a) (AllowedIPs peer)
                        @ haAdded nm flags peer)
               (filter peerIncluded (Peers nm))
         \<and> distinct (haAdded nm flags peer)
         \<and> set (haAdded nm flags peer) =
             (if flags AND AllowSubnetRoutes \<noteq> 0 \<and> selfAdvertisesSubnetRoute nm \<and> Tags peer \<noteq> []
              then haGroupRoutes (Peers nm) peer - set (AllowedIPs peer) else {})"
proof -
  have a: "map Peer_AllowedIPs (Cfg_Peers cfg) =
           map (\<lambda>peer. filter (\<lambda>a. \<not> entryDropped peer flags exitNode a) (AllowedIPs peer)
                        @ haAdded nm flags peer)
               (filter peerIncluded (Peers nm))"
    by (simp add: WGCfg_Peers[OF assms] translatePeer_def keptByLoop_entryDropped comp_def)
  have b: "distinct (haAdded nm flags peer)"
    by (simp add: haAdded_def haSubnetRouterAllowedIPs_distinct)
  have c: "set (haAdded nm flags peer) =
             (if flags AND AllowSubnetRoutes \<noteq> 0 \<and> selfAdvertisesSubnetRoute nm \<and> Tags peer \<noteq> []
              then haGroupRoutes (Peers nm) peer - set (AllowedIPs peer) else {})"
    by (auto simp: haAdded_def haSubnetRouterAllowedIPs_set)
  show ?thesis using a b c by blast
qed

theorem WGCfg_ha_expansion_witness:
  "WGCfg noParse 7 (Some (haNetMap siteBSR2)) True AllowSubnetRoutes [] =
     Returns (\<lparr>Cfg_PrivateKey = 7, Cfg_Addresses = [siteBSR2Addr],
               Cfg_Peers = [\<lparr>Peer_PublicKey = 1, Peer_DiscoKey = 0,
                              Peer_AllowedIPs = [siteASR1Addr, siteASubnet],
                              Peer_V4MasqAddr = None, Peer_V6MasqAddr = None, Peer_IsJailed = False\<rparr>,
                            \<lparr>Peer_PublicKey = 2, Peer_DiscoKey = 0,
                              Peer_AllowedIPs = [siteASR2Addr, siteASubnet],
                              Peer_V4MasqAddr = None, Peer_V6MasqAddr = None, Peer_IsJailed = False\<rparr>,
                            \<lparr>Peer_PublicKey = 3, Peer_DiscoKey = 0,
                              Peer_AllowedIPs = [siteBSR1Addr, siteBSubnet],
                              Peer_V4MasqAddr = None, Peer_V6MasqAddr = None, Peer_IsJailed = False\<rparr>],
               Cfg_NetworkLogging = zeroNetworkLogging\<rparr>,
              None,
              [AddingHAAllowedIPs 1 ''site-a-sr1'' [siteASubnet]])
   \<and> selfAdvertisesSubnetRoute (haNetMap siteBSR2)
   \<and> haAdded (haNetMap siteBSR2) AllowSubnetRoutes
         (withHostinfo ''sr'' siteASR1AsSeenBySiteBSR2) = [siteASubnet]
   \<and> set (haAdded (haNetMap siteBSR2) AllowSubnetRoutes
              (withHostinfo ''sr'' siteASR1AsSeenBySiteBSR2)) =
       haGroupRoutes (Peers (haNetMap siteBSR2)) (withHostinfo ''sr'' siteASR1AsSeenBySiteBSR2)
         - set (AllowedIPs (withHostinfo ''sr'' siteASR1AsSeenBySiteBSR2))
   \<and> haAdded (haNetMap siteBSR2) AllowSubnetRoutes
         (withHostinfo ''sr'' siteASR2AsSeenBySiteBSR2) = []
   \<and> haAdded (haNetMap siteBSR2) 0 (withHostinfo ''sr'' siteASR1AsSeenBySiteBSR2) = []
   \<and> \<not> selfAdvertisesSubnetRoute (haNetMap nonSubnetRouterSelf)
   \<and> haAdded (haNetMap nonSubnetRouterSelf) AllowSubnetRoutes
         (withHostinfo ''sr'' siteASR1AsSeenBySiteBSR2) = []"
proof -
  have h: "WGCfg noParse 7 (Some (haNetMap siteBSR2)) True AllowSubnetRoutes [] =
     Returns (\<lparr>Cfg_PrivateKey = 7, Cfg_Addresses = [siteBSR2Addr],
               Cfg_Peers = [\<lparr>Peer_PublicKey = 1, Peer_DiscoKey = 0,
                              Peer_AllowedIPs = [siteASR1Addr, siteASubnet],
                              Peer_V4MasqAddr = None, Peer_V6MasqAddr = None, Peer_IsJailed = False\<rparr>,
                            \<lparr>Peer_PublicKey = 2, Peer_DiscoKey = 0,
                              Peer_AllowedIPs = [siteASR2Addr, siteASubnet],
                              Peer_V4MasqAddr = None, Peer_V6MasqAddr = None, Peer_IsJailed = False\<rparr>,
                            \<lparr>Peer_PublicKey = 3, Peer_DiscoKey = 0,
                              Peer_AllowedIPs = [siteBSR1Addr, siteBSubnet],
                              Peer_V4MasqAddr = None, Peer_V6MasqAddr = None, Peer_IsJailed = False\<rparr>],
               Cfg_NetworkLogging = zeroNetworkLogging\<rparr>,
              None,
              [AddingHAAllowedIPs 1 ''site-a-sr1'' [siteASubnet]])"
    by (simp add: haNetMap_def withHostinfo_def siteBSR2_def siteBSR1_def
          siteASR1AsSeenBySiteBSR2_def siteASR2AsSeenBySiteBSR2_def testNode_def pfx4_def
          siteASubnet_def siteBSubnet_def siteASR1Addr_def siteASR2Addr_def siteBSR1Addr_def
          siteBSR2Addr_def noParse_def code_defs)
  have p: "selfAdvertisesSubnetRoute (haNetMap siteBSR2)"
    by (simp add: selfAdvertisesSubnetRoute_def haNetMap_def siteBSR2_def testNode_def pfx4_def
          siteBSubnet_def siteBSR2Addr_def Bits_def IsSingleIP_def IsValid_def)
  have q: "\<not> selfAdvertisesSubnetRoute (haNetMap nonSubnetRouterSelf)"
    by (simp add: selfAdvertisesSubnetRoute_def haNetMap_def nonSubnetRouterSelf_def testNode_def
          pfx4_def Bits_def IsSingleIP_def IsValid_def)
  have a1: "haAdded (haNetMap siteBSR2) AllowSubnetRoutes
              (withHostinfo ''sr'' siteASR1AsSeenBySiteBSR2) = [siteASubnet]"
    by (simp add: haAdded_def haNetMap_def withHostinfo_def siteBSR2_def siteBSR1_def
          siteASR1AsSeenBySiteBSR2_def siteASR2AsSeenBySiteBSR2_def testNode_def pfx4_def
          siteASubnet_def siteBSubnet_def siteASR1Addr_def siteASR2Addr_def siteBSR1Addr_def
          siteBSR2Addr_def code_defs)
  have a2: "haAdded (haNetMap siteBSR2) AllowSubnetRoutes
              (withHostinfo ''sr'' siteASR2AsSeenBySiteBSR2) = []"
    by (simp add: haAdded_def haNetMap_def withHostinfo_def siteBSR2_def siteBSR1_def
          siteASR1AsSeenBySiteBSR2_def siteASR2AsSeenBySiteBSR2_def testNode_def pfx4_def
          siteASubnet_def siteBSubnet_def siteASR1Addr_def siteASR2Addr_def siteBSR1Addr_def
          siteBSR2Addr_def code_defs)
  have a3: "haAdded (haNetMap siteBSR2) 0 (withHostinfo ''sr'' siteASR1AsSeenBySiteBSR2) = []"
    by (simp add: haAdded_def)
  have a4: "haAdded (haNetMap nonSubnetRouterSelf) AllowSubnetRoutes
              (withHostinfo ''sr'' siteASR1AsSeenBySiteBSR2) = []"
    by (simp add: haAdded_def haNetMap_def withHostinfo_def nonSubnetRouterSelf_def
          siteASR1AsSeenBySiteBSR2_def testNode_def pfx4_def code_defs)
  have t: "Tags (withHostinfo ''sr'' siteASR1AsSeenBySiteBSR2) \<noteq> []"
          "AllowSubnetRoutes AND AllowSubnetRoutes \<noteq> 0"
    by (simp_all add: withHostinfo_def siteASR1AsSeenBySiteBSR2_def testNode_def
          AllowSubnetRoutes_def)
  show ?thesis
    using h p q a1 a2 a3 a4 t
      WGCfg_ha_expansion[OF h, of "withHostinfo ''sr'' siteASR1AsSeenBySiteBSR2"]
    by simp
qed

text \<open>
  Claim C8 as stated fails. The allowed IPs of this self node are single addresses only,
  its own and \<open>10.200.0.5/32\<close>, so it advertises no subnet route in the sense of the
  specification (a non-default entry that is not a single address). Yet
  \<^verbatim>\<open>haSubnetRouterAllowedIPs\<close> returns the prefix of site A for the test's peer
  \<open>site-a-sr1\<close>, and \<^verbatim>\<open>WGCfg\<close> appends it to that peer's allowed IPs.
\<close>

theorem WGCfg_ha_expansion_counterexample:
  "\<not> statedSelfAdvertisesSubnetRoute (haNetMap hostRouteSelf)
   \<and> AllowedIPs hostRouteSelf = [siteBSR2Addr, pfx4 0x0AC80005 32]
   \<and> haSubnetRouterAllowedIPs (Some hostRouteSelf) siteASR1AsSeenBySiteBSR2
        [siteASR1AsSeenBySiteBSR2, siteASR2AsSeenBySiteBSR2, siteBSR1] = [siteASubnet]
   \<and> AllowedIPs (withHostinfo ''sr'' siteASR1AsSeenBySiteBSR2) = [siteASR1Addr]
   \<and> WGCfg noParse 7 (Some (haNetMap hostRouteSelf)) True AllowSubnetRoutes [] =
     Returns (\<lparr>Cfg_PrivateKey = 7, Cfg_Addresses = [siteBSR2Addr],
               Cfg_Peers = [\<lparr>Peer_PublicKey = 1, Peer_DiscoKey = 0,
                              Peer_AllowedIPs = [siteASR1Addr, siteASubnet],
                              Peer_V4MasqAddr = None, Peer_V6MasqAddr = None, Peer_IsJailed = False\<rparr>,
                            \<lparr>Peer_PublicKey = 2, Peer_DiscoKey = 0,
                              Peer_AllowedIPs = [siteASR2Addr, siteASubnet],
                              Peer_V4MasqAddr = None, Peer_V6MasqAddr = None, Peer_IsJailed = False\<rparr>,
                            \<lparr>Peer_PublicKey = 3, Peer_DiscoKey = 0,
                              Peer_AllowedIPs = [siteBSR1Addr, siteBSubnet],
                              Peer_V4MasqAddr = None, Peer_V6MasqAddr = None, Peer_IsJailed = False\<rparr>],
               Cfg_NetworkLogging = zeroNetworkLogging\<rparr>,
              None,
              [AddingHAAllowedIPs 1 ''site-a-sr1'' [siteASubnet]])"
  by (simp add: statedSelfAdvertisesSubnetRoute_def haNetMap_def hostRouteSelf_def
        withHostinfo_def siteBSR1_def siteASR1AsSeenBySiteBSR2_def siteASR2AsSeenBySiteBSR2_def
        testNode_def pfx4_def siteASubnet_def siteBSubnet_def siteASR1Addr_def siteASR2Addr_def
        siteBSR1Addr_def siteBSR2Addr_def noParse_def code_defs)

text \<open>
  Claim C9, evaluated at the map made of the nodes of \<^verbatim>\<open>TestHASubnetRouterAllowedIPs\<close>
  as the test builds them, with subnet routes accepted. The peer \<open>site-a-sr1\<close> is included,
  has a name and no host info, and gets the prefix of site A added; formatting the log line
  about it reads the host name of its missing host info, and \<^verbatim>\<open>WGCfg\<close> panics, with a
  logger that runs the writers it is handed and with one that does not. The claim says
  that \<^verbatim>\<open>WGCfg\<close> returns a nil error for every map.
\<close>

theorem WGCfg_panics_on_test_nodes:
  "WGCfg noParse 7 (Some testNetMap) False AllowSubnetRoutes [] = Panics
   \<and> WGCfg noParse 7 (Some testNetMap) True AllowSubnetRoutes [] = Panics
   \<and> Peers testNetMap = [siteASR1AsSeenBySiteBSR2, siteASR2AsSeenBySiteBSR2, siteBSR1]
   \<and> Name siteASR1AsSeenBySiteBSR2 = ''site-a-sr1''
   \<and> Hostinfo siteASR1AsSeenBySiteBSR2 = None
   \<and> haAdded testNetMap AllowSubnetRoutes siteASR1AsSeenBySiteBSR2 = [siteASubnet]
   \<and> nodeDebugName siteASR1AsSeenBySiteBSR2 = Panics"
  by (simp add: haAdded_def testNetMap_def siteBSR2_def siteBSR1_def siteASR1AsSeenBySiteBSR2_def
        siteASR2AsSeenBySiteBSR2_def testNode_def pfx4_def siteASubnet_def siteBSubnet_def
        siteASR1Addr_def siteASR2Addr_def siteBSR1Addr_def siteBSR2Addr_def noParse_def code_defs)

text \<open>
  Claim C10. The network-logging parameters of the returned configuration are all set or
  all zero: they are the two parsed identifiers and the log-exit-flows capability when the
  self node is valid, has the data-plane audit-log capability, both identifiers are
  non-empty and both parse; in every other case, in particular when a parse fails, the
  field is the zero value.
\<close>

theorem WGCfg_networkLogging_all_or_nothing:
  assumes "WGCfg parse pk (Some nm) logfRunsWriter flags exitNode = Returns (cfg, err, logs)"
  shows "Cfg_NetworkLogging cfg =
           (case SelfNode nm of
              None \<Rightarrow> zeroNetworkLogging
            | Some self \<Rightarrow>
                if HasCap self CapabilityDataPlaneAuditLogs
                   \<and> DataPlaneAuditLogID self \<noteq> [] \<and> DomainAuditLogID nm \<noteq> []
                   \<and> \<not> isl (parse (DataPlaneAuditLogID self))
                   \<and> \<not> isl (parse (DomainAuditLogID nm))
                then \<lparr>NodeID = projr (parse (DataPlaneAuditLogID self)),
                      DomainID = projr (parse (DomainAuditLogID nm)),
                      LogExitFlowEnabled = HasCap self NodeAttrLogExitFlows\<rparr>
                else zeroNetworkLogging)
         \<and> (Cfg_NetworkLogging cfg \<noteq> zeroNetworkLogging \<longrightarrow>
              (\<exists>self nodeID domainID. SelfNode nm = Some self
                 \<and> HasCap self CapabilityDataPlaneAuditLogs
                 \<and> DataPlaneAuditLogID self \<noteq> [] \<and> DomainAuditLogID nm \<noteq> []
                 \<and> parse (DataPlaneAuditLogID self) = Inr nodeID
                 \<and> parse (DomainAuditLogID nm) = Inr domainID))
         \<and> ((\<exists>self. SelfNode nm = Some self \<and>
                (isl (parse (DataPlaneAuditLogID self)) \<or> isl (parse (DomainAuditLogID nm))))
             \<longrightarrow> Cfg_NetworkLogging cfg = zeroNetworkLogging)"
proof -
  have c: "Cfg_NetworkLogging cfg = fst (WGCfg_logIDs parse nm)"
    using WGCfg_Returns(1)[OF assms] by simp
  show ?thesis
    unfolding c
    by (auto simp: WGCfg_logIDs_def Let_def split: option.splits sum.splits)
qed

theorem WGCfg_networkLogging_all_or_nothing_witness:
  "WGCfg toyParse 7 (Some (auditNetMap ''domain-id'')) True 0 [] =
     Returns (\<lparr>Cfg_PrivateKey = 7, Cfg_Addresses = [siteBSR2Addr], Cfg_Peers = [],
               Cfg_NetworkLogging =
                 \<lparr>NodeID = 11, DomainID = 22, LogExitFlowEnabled = False\<rparr>\<rparr>,
              None, [])
   \<and> \<lparr>NodeID = 11, DomainID = 22, LogExitFlowEnabled = False\<rparr> \<noteq> zeroNetworkLogging
   \<and> HasCap auditSelf CapabilityDataPlaneAuditLogs
   \<and> toyParse (DataPlaneAuditLogID auditSelf) = Inr 11
   \<and> toyParse (DomainAuditLogID (auditNetMap ''domain-id'')) = Inr 22"
proof -
  have h: "WGCfg toyParse 7 (Some (auditNetMap ''domain-id'')) True 0 [] =
     Returns (\<lparr>Cfg_PrivateKey = 7, Cfg_Addresses = [siteBSR2Addr], Cfg_Peers = [],
               Cfg_NetworkLogging =
                 \<lparr>NodeID = 11, DomainID = 22, LogExitFlowEnabled = False\<rparr>\<rparr>,
              None, [])"
    by (simp add: auditNetMap_def auditSelf_def toyParse_def testNode_def pfx4_def siteBSR2Addr_def code_defs)
  show ?thesis
    using h WGCfg_networkLogging_all_or_nothing[OF h]
    by (simp add: auditNetMap_def auditSelf_def toyParse_def testNode_def pfx4_def siteBSR2Addr_def code_defs)
qed

section \<open>Properties of the orchestrator\<close>

subsection \<open>The state machine\<close>

lemmas orch_defs = send_def called_def SetPaused_def newClient_def pausePolicy_def
  enterState_def stateMachine_def nextState_def notifyState_def notifyPrefs_def Let_def

lemma pausePolicy_fields [simp]:
  "state (pausePolicy b) = state b" "notifies (pausePolicy b) = notifies b"
  "prefs (pausePolicy b) = prefs b" "netMap (pausePolicy b) = netMap b"
  "keyExpired (pausePolicy b) = keyExpired b"
  "relayLink (pausePolicy b) = relayLink b" "ccGen (pausePolicy b) = ccGen b"
  by (simp_all add: pausePolicy_def SetPaused_def called_def)

lemma nextState_cong:
  "ccGen b' = ccGen b \<Longrightarrow> netMap b' = netMap b \<Longrightarrow> prefs b' = prefs b \<Longrightarrow>
   keyExpired b' = keyExpired b \<Longrightarrow> relayLink b' = relayLink b \<Longrightarrow>
   nextState b' = nextState b"
  by (simp add: nextState_def split: option.splits)

lemma nextState_pausePolicy [simp]: "nextState (pausePolicy b) = nextState b"
  by (rule nextState_cong) simp_all

lemma send_fields [simp]:
  "state (send n b) = state b" "notifies (send n b) = notifies b @ [n]"
  "prefs (send n b) = prefs b" "netMap (send n b) = netMap b"
  "keyExpired (send n b) = keyExpired b"
  "relayLink (send n b) = relayLink b" "ccGen (send n b) = ccGen b"
  "ccCalls (send n b) = ccCalls b" "ccPaused (send n b) = ccPaused b"
  by (simp_all add: send_def)

lemma nextState_send [simp]: "nextState (send n b) = nextState b"
  by (rule nextState_cong) simp_all

lemma enterState_fields [simp]:
  "state (enterState s b) = s" "notifies (enterState s b) = notifies b"
  "prefs (enterState s b) = prefs b" "netMap (enterState s b) = netMap b"
  "keyExpired (enterState s b) = keyExpired b"
  "relayLink (enterState s b) = (relayLink b \<and> (s = Starting \<or> s = Running))"
  "ccGen (enterState s b) = ccGen b"
  "ccCalls (enterState s b) = ccCalls b" "ccPaused (enterState s b) = ccPaused b"
  by (simp_all add: enterState_def)

lemma nextState_enterState [simp]:
  "nextState (enterState (nextState b) b) = nextState b"
  by (auto simp: nextState_def split: option.splits)

lemma stateMachine_state [simp]: "state (stateMachine b) = nextState b"
  by (simp add: stateMachine_def Let_def)

lemma stateMachine_nextState [simp]: "nextState (stateMachine b) = nextState b"
  by (simp add: stateMachine_def Let_def)

lemma stateMachine_notifies:
  "notifies (stateMachine b) =
     notifies b @ (if nextState b = state b then [] else [notifyState (nextState b)])"
  by (simp add: stateMachine_def Let_def)

lemma stateMachine_frame [simp]:
  "prefs (stateMachine b) = prefs b" "netMap (stateMachine b) = netMap b"
  "keyExpired (stateMachine b) = keyExpired b" "ccGen (stateMachine b) = ccGen b"
  by (simp_all add: stateMachine_def Let_def)

lemma stateMachine_relayLink:
  "relayLink (stateMachine b) =
     (relayLink b \<and> (nextState b = state b \<or> nextState b = Starting \<or> nextState b = Running))"
  by (auto simp: stateMachine_def Let_def)

lemma stateMachine_settled:
  "(relayLink b \<longrightarrow> state b = Starting \<or> state b = Running) \<Longrightarrow>
   settled (stateMachine b)"
  by (auto simp: settled_def stateMachine_relayLink)

lemma settled_new: "settled newLocalBackend"
  by (simp add: settled_def newLocalBackend_def nextState_def)

lemma settled_relayLink: "settled b \<Longrightarrow> relayLink b \<Longrightarrow> state b = Running"
  by (auto simp: settled_def nextState_def split: option.splits if_splits)

lemma Start_state: "state (Start b) = NeedsLogin" if "LoggedOut (prefs b)"
  using that by (simp add: Start_def Let_def newClient_def called_def nextState_def split: option.splits)

lemmas orch_all_defs = orch_defs Start_def Logout_def EditPrefs_def ApplyEdits_def
  stripKeysFromPrefs_def SetControlClientStatus_def setWgengineStatus_def mapExpired_def
  machineAuthorized_def

lemma called_fields [simp]:
  "state (called c b) = state b" "notifies (called c b) = notifies b"
  "prefs (called c b) = prefs b" "netMap (called c b) = netMap b"
  "keyExpired (called c b) = keyExpired b"
  "relayLink (called c b) = relayLink b" "ccGen (called c b) = ccGen b"
  by (simp_all add: called_def)

lemma newClient_fields [simp]:
  "state (newClient b) = state b" "notifies (newClient b) = notifies b"
  "prefs (newClient b) = prefs b" "netMap (newClient b) = netMap b"
  "keyExpired (newClient b) = keyExpired b"
  "relayLink (newClient b) = relayLink b" "ccGen (newClient b) = Suc (ccGen b)"
  by (simp_all add: newClient_def called_def)

lemma settledD:
  assumes "settled b"
  shows "state b = nextState b"
    and "relayLink b \<longrightarrow> state b = Starting \<or> state b = Running"
  using assms unfolding settled_def by blast+

subsection \<open>The invariant holds before the first start and after every operation\<close>

lemma enter_nextState_settled:
  "settled (pausePolicy (send n (enterState (nextState b) b)))"
proof -
  have r: "relayLink b \<Longrightarrow> nextState b \<noteq> Starting"
    by (auto simp: nextState_def split: option.splits if_splits)
  show ?thesis
    using r by (auto simp: settled_def)
qed

lemma Start_settled: "settled (Start b)"
  unfolding Start_def Let_def by (rule enter_nextState_settled)

lemma Logout_settled:
  assumes "settled b" "Logout b = Returns b'"
  shows "settled b'"
proof (cases "state b = NeedsLogin")
  case True
  then show ?thesis using assms by (simp add: Logout_def)
next
  case False
  then have g: "ccGen b \<noteq> 0"
    using assms(2) by (auto simp: Logout_def split: if_splits)
  obtain b7 where b7: "b' = pausePolicy (send (notifyState NeedsLogin) (enterState NeedsLogin b7))"
    and m: "netMap b7 = None" and c: "ccGen b7 \<noteq> 0"
    using assms(2) False g unfolding Logout_def Let_def
    by (simp del: pausePolicy_def) fastforce
  have "nextState b7 = NeedsLogin" using m c by (simp add: nextState_def)
  then show ?thesis
    using enter_nextState_settled[of "notifyState NeedsLogin" b7] b7 by simp
qed

lemma EditPrefs_settled:
  assumes "settled b" "EditPrefs b mp = Inr (b', p)"
  shows "settled b'"
proof -
  let ?newp = "ApplyEdits (prefs b) mp"
  let ?b2 = "(if \<not> WantRunning (prefs b) \<and> WantRunning ?newp \<and> ccGen b \<noteq> 0
              then called CallLogin (b\<lparr>prefs := ?newp\<rparr>) else b\<lparr>prefs := ?newp\<rparr>)"
  have np: "\<not> PersistSet mp" using assms(2) by (auto simp: EditPrefs_def)
  have e: "b' = send (notifyPrefs ?newp) (stateMachine ?b2)"
    using assms(2) np by (simp add: EditPrefs_def Let_def)
  have f: "state ?b2 = state b" "relayLink ?b2 = relayLink b"
    by simp_all
  have "settled (stateMachine ?b2)"
    using settledD(2)[OF assms(1)] by (intro stateMachine_settled) (simp_all only: f)
  then show ?thesis unfolding e by (simp add: settled_def)
qed

lemma SetControlClientStatus_settled:
  "settled b \<Longrightarrow> settled (SetControlClientStatus now nm b)"
  unfolding SetControlClientStatus_def
  by (rule stateMachine_settled) (auto simp: settled_def)

lemma setWgengineStatus_settled:
  assumes "settled b"
  shows "settled (setWgengineStatus d b)"
proof (cases "d > 0 \<and> state b = Starting \<and> WantRunning (prefs b)")
  case True
  have "settled (stateMachine (b\<lparr>relayLink := True\<rparr>))"
    using assms True by (intro stateMachine_settled) (auto simp: settled_def)
  then show ?thesis using True by (simp add: setWgengineStatus_def)
next
  case False
  have "settled (stateMachine b)"
    using assms by (intro stateMachine_settled) (auto simp: settled_def)
  then show ?thesis using False by (auto simp: setWgengineStatus_def)
qed

subsection \<open>start\<close>

lemma Start_logged_out:
  assumes "LoggedOut (prefs b)"
  shows "notifies (Start b) = notifies b @ [notifyPrefs (prefs b), notifyState NeedsLogin]"
    and "prefs (Start b) = prefs b"
  using assms
  by (simp_all add: Start_def Let_def newClient_def called_def nextState_def split: option.splits)

lemma concat_replicate_Suc:
  "concat (replicate (Suc n) xs) = concat (replicate n xs) @ xs"
  by (induction n) simp_all

lemma Start_iterate:
  "prefs ((Start ^^ n) newLocalBackend) = newPrefs \<and>
   notifies ((Start ^^ n) newLocalBackend) =
     concat (replicate n [notifyPrefs newPrefs, notifyState NeedsLogin])"
proof (induction n)
  case 0
  show ?case by (simp add: newLocalBackend_def)
next
  case (Suc n)
  have l: "LoggedOut (prefs ((Start ^^ n) newLocalBackend))"
    using Suc by (simp add: newPrefs_def)
  have r: "concat (replicate (Suc n) [notifyPrefs newPrefs, notifyState NeedsLogin]) =
           concat (replicate n [notifyPrefs newPrefs, notifyState NeedsLogin])
             @ [notifyPrefs newPrefs, notifyState NeedsLogin]"
    by (rule concat_replicate_Suc)
  show ?case
    using Start_logged_out[OF l] Suc by (simp only: funpow.simps comp_def r)
qed

text \<open>
  Claim C1. On a fresh, logged-out profile every call of start emits exactly two
  notifications, first the preferences (logged out, not wanting to run), then the state
  \<open>NeedsLogin\<close>: after \<open>n\<close> calls the notifications emitted are \<open>n\<close> times this pair, and
  the state after each call is \<open>NeedsLogin\<close>.
\<close>

theorem Start_fresh_profile_idempotent:
  "notifies ((Start ^^ n) newLocalBackend) =
     concat (replicate n [notifyPrefs newPrefs, notifyState NeedsLogin])
   \<and> LoggedOut newPrefs \<and> \<not> WantRunning newPrefs
   \<and> state (Start ((Start ^^ n) newLocalBackend)) = NeedsLogin"
proof -
  have l: "LoggedOut (prefs ((Start ^^ n) newLocalBackend))"
    using Start_iterate[of n] by (simp add: newPrefs_def)
  show ?thesis
    using Start_iterate[of n] Start_state[OF l] by (simp add: newPrefs_def)
qed

theorem Start_fresh_profile_idempotent_witness:
  "notifies (Start newLocalBackend) = [notifyPrefs newPrefs, notifyState NeedsLogin]
   \<and> notifies (Start (Start newLocalBackend)) =
       [notifyPrefs newPrefs, notifyState NeedsLogin, notifyPrefs newPrefs, notifyState NeedsLogin]
   \<and> ccCalls (Start (Start newLocalBackend)) = [(1, CallNew), (1, CallShutdown), (2, CallNew)]"
proof -
  have a: "Start newLocalBackend = (Start ^^ 1) newLocalBackend"
    and b: "Start (Start newLocalBackend) = (Start ^^ 2) newLocalBackend"
    by (simp_all add: numeral_2_eq_2)
  have c: "ccCalls (Start (Start newLocalBackend)) = [(1, CallNew), (1, CallShutdown), (2, CallNew)]"
    by (simp add: Start_def newLocalBackend_def newPrefs_def orch_defs)
  show ?thesis
    unfolding a b
    using Start_fresh_profile_idempotent[of 1] Start_fresh_profile_idempotent[of 2] c
    by (simp add: numeral_2_eq_2)
qed

subsection \<open>logout\<close>

lemma Logout_ends_in_NeedsLogin:
  assumes "Logout b = Returns b'"
  shows "state b' = NeedsLogin"
proof (cases "state b = NeedsLogin")
  case True
  then show ?thesis using assms by (simp add: Logout_def)
next
  case False
  then have g: "ccGen b \<noteq> 0"
    using assms by (auto simp: Logout_def split: if_splits)
  obtain b7 where "b' = pausePolicy (send (notifyState NeedsLogin) (enterState NeedsLogin b7))"
    using assms False g unfolding Logout_def Let_def
    by (simp del: pausePolicy_def) fastforce
  then show ?thesis by simp
qed

text \<open>
  Claim C2. A logout in state \<open>NeedsLogin\<close> returns the backend as it was: no command
  goes to the control session, no notification is emitted, and the preferences and the state
  are unchanged. Every logout that returns leaves the state \<open>NeedsLogin\<close>, so a second
  logout after it is such a no-op.
\<close>

theorem Logout_in_NeedsLogin_is_noop:
  "(state b = NeedsLogin \<longrightarrow> Logout b = Returns b)
   \<and> (Logout b = Returns b' \<longrightarrow> state b' = NeedsLogin \<and> Logout b' = Returns b')"
proof -
  have a: "\<And>c. state c = NeedsLogin \<Longrightarrow> Logout c = Returns c"
    by (simp add: Logout_def)
  show ?thesis
    using a Logout_ends_in_NeedsLogin[of b b'] by blast
qed

theorem Logout_in_NeedsLogin_is_noop_witness:
  "Logout loggedInBackend = Returns loggedOutBackend
   \<and> state loggedOutBackend = NeedsLogin
   \<and> LoggedOut (prefs loggedOutBackend) \<and> \<not> WantRunning (prefs loggedOutBackend)
   \<and> Logout loggedOutBackend = Returns loggedOutBackend"
proof -
  have f: "Logout loggedInBackend = Returns loggedOutBackend"
    by (simp add: loggedInBackend_def loggedInPrefs_def authorizedMap_def testNode_def
          loggedOutBackend_def newPrefs_def orch_all_defs)
  show ?thesis
    using f Logout_in_NeedsLogin_is_noop[of loggedInBackend loggedOutBackend]
    by (simp add: loggedOutBackend_def newPrefs_def)
qed

subsection \<open>The receipt of a network map\<close>

text \<open>
  The test's steps ``ExpireKey'' and ``ExtendKey'', for the state: a map whose expiry is
  past gives \<open>NeedsLogin\<close>, and a later map with a future expiry and an authorized self
  node gives \<open>Starting\<close> when the preferences want to run and are not logged out.
\<close>

lemma expired_map_then_extended:
  assumes "ccGen b \<noteq> 0" and "settled b" and "mapExpired now nm"
  shows "state (SetControlClientStatus now nm b) = NeedsLogin"
    and "\<not> mapExpired now' nm' \<Longrightarrow> machineAuthorized nm' \<Longrightarrow>
         WantRunning (prefs b) \<Longrightarrow> \<not> LoggedOut (prefs b) \<Longrightarrow>
         state (SetControlClientStatus now' nm' (SetControlClientStatus now nm b)) = Starting"
proof -
  let ?b1 = "SetControlClientStatus now nm b"
  have n1: "nextState (b\<lparr>netMap := Some nm, keyExpired := mapExpired now nm\<rparr>) = NeedsLogin"
    using assms by (simp add: nextState_def)
  show s1: "state ?b1 = NeedsLogin"
    using n1 by (simp add: SetControlClientStatus_def)
  have t1: "settled ?b1"
    by (rule SetControlClientStatus_settled[OF assms(2)])
  have r1: "\<not> relayLink ?b1"
    using settled_relayLink[OF t1] s1 by auto
  assume h: "\<not> mapExpired now' nm'" "machineAuthorized nm'"
    "WantRunning (prefs b)" "\<not> LoggedOut (prefs b)"
  have p1: "prefs ?b1 = prefs b" "ccGen ?b1 = ccGen b"
    by (simp_all add: SetControlClientStatus_def)
  have n2: "nextState (?b1\<lparr>netMap := Some nm', keyExpired := mapExpired now' nm'\<rparr>) = Starting"
    using h p1 r1 assms(1) by (simp add: nextState_def)
  show "state (SetControlClientStatus now' nm' ?b1) = Starting"
    using n2 by (simp add: SetControlClientStatus_def[of now' nm'])
qed

subsection \<open>The receipt of an engine status\<close>

lemma setWgengineStatus_Starting_up:
  assumes "settled b" "state b = Starting" "0 < d"
  shows "state (setWgengineStatus d b) = Running"
    and "notifies (setWgengineStatus d b) = notifies b @ [notifyState Running]"
proof -
  have w: "WantRunning (prefs b)" and n: "nextState b = Starting"
    using assms(1,2) by (auto simp: settled_def nextState_def split: option.splits if_splits)
  have r: "nextState (b\<lparr>relayLink := True\<rparr>) = Running"
    using n by (auto simp: nextState_def split: option.splits if_splits)
  show "state (setWgengineStatus d b) = Running"
    using assms w r by (simp add: setWgengineStatus_def)
  show "notifies (setWgengineStatus d b) = notifies b @ [notifyState Running]"
    using assms w r by (simp add: setWgengineStatus_def stateMachine_notifies)
qed

lemma setWgengineStatus_no_change:
  assumes "settled b" "state b = Running \<or> d \<le> 0"
  shows "state (setWgengineStatus d b) = state b"
    and "notifies (setWgengineStatus d b) = notifies b"
proof -
  have e: "setWgengineStatus d b = stateMachine b"
    using assms(2) by (auto simp: setWgengineStatus_def)
  have n: "nextState b = state b" using assms(1) by (simp add: settled_def)
  show "state (setWgengineStatus d b) = state b" by (simp add: e n)
  show "notifies (setWgengineStatus d b) = notifies b"
    by (simp add: e n stateMachine_notifies)
qed

lemma fold_setWgengineStatus_Running:
  "settled b \<Longrightarrow> state b = Running \<Longrightarrow>
   state (fold setWgengineStatus ds b) = Running \<and>
   notifies (fold setWgengineStatus ds b) = notifies b"
proof (induction ds arbitrary: b)
  case Nil
  then show ?case by simp
next
  case (Cons d ds)
  have "settled (setWgengineStatus d b)"
    by (rule setWgengineStatus_settled[OF Cons.prems(1)])
  moreover have "state (setWgengineStatus d b) = Running"
    "notifies (setWgengineStatus d b) = notifies b"
    using setWgengineStatus_no_change[OF Cons.prems(1), of d] Cons.prems(2) by simp_all
  ultimately show ?case using Cons.IH[of "setWgengineStatus d b"] by simp
qed

lemma fold_setWgengineStatus_Starting:
  "settled b \<Longrightarrow> state b = Starting \<Longrightarrow> \<exists>d \<in> set ds. 0 < d \<Longrightarrow>
   state (fold setWgengineStatus ds b) = Running \<and>
   notifies (fold setWgengineStatus ds b) = notifies b @ [notifyState Running]"
proof (induction ds arbitrary: b)
  case Nil
  then show ?case by simp
next
  case (Cons d ds)
  have t: "settled (setWgengineStatus d b)"
    by (rule setWgengineStatus_settled[OF Cons.prems(1)])
  show ?case
  proof (cases "0 < d")
    case True
    have "state (setWgengineStatus d b) = Running"
      "notifies (setWgengineStatus d b) = notifies b @ [notifyState Running]"
      using setWgengineStatus_Starting_up[OF Cons.prems(1,2) True] by simp_all
    then show ?thesis
      using fold_setWgengineStatus_Running[OF t, of ds] by simp
  next
    case False
    then have "state (setWgengineStatus d b) = Starting"
      "notifies (setWgengineStatus d b) = notifies b"
      using setWgengineStatus_no_change[OF Cons.prems(1), of d] Cons.prems(2) by simp_all
    moreover have "\<exists>d \<in> set ds. 0 < d" using Cons.prems(3) False by auto
    ultimately show ?thesis using Cons.IH[OF t] by simp
  qed
qed

text \<open>
  The part of claim C4 about signals that arrive one after another. In \<open>Starting\<close> a
  signal with a relay count above zero moves the state to \<open>Running\<close> and emits one state
  notification; whatever signals follow change neither the state nor the notifications; and
  any sequence of signals with at least one relay count above zero, in any order, ends in
  \<open>Running\<close> with that one notification. Signals processed at the same time by several
  threads are outside this model.
\<close>

lemma relay_link_signals_delivered_in_any_order:
  assumes "settled b" and "state b = Starting"
  shows "WantRunning (prefs b)
         \<and> (0 < d \<longrightarrow>
              state (setWgengineStatus d b) = Running
              \<and> notifies (setWgengineStatus d b) = notifies b @ [notifyState Running]
              \<and> state (fold setWgengineStatus ds (setWgengineStatus d b)) = Running
              \<and> notifies (fold setWgengineStatus ds (setWgengineStatus d b)) =
                  notifies b @ [notifyState Running])
         \<and> ((\<exists>d' \<in> set ds. 0 < d') \<longrightarrow>
              state (fold setWgengineStatus ds b) = Running
              \<and> notifies (fold setWgengineStatus ds b) = notifies b @ [notifyState Running])"
proof -
  have w: "WantRunning (prefs b)"
    using assms by (auto simp: settled_def nextState_def split: option.splits if_splits)
  {
    assume d: "0 < d"
    have u: "state (setWgengineStatus d b) = Running"
      "notifies (setWgengineStatus d b) = notifies b @ [notifyState Running]"
      using setWgengineStatus_Starting_up[OF assms d] by simp_all
    have "state (fold setWgengineStatus ds (setWgengineStatus d b)) = Running
          \<and> notifies (fold setWgengineStatus ds (setWgengineStatus d b)) =
              notifies b @ [notifyState Running]"
      using fold_setWgengineStatus_Running[OF setWgengineStatus_settled[OF assms(1)] u(1), of ds] u(2)
      by simp
    with u have "state (setWgengineStatus d b) = Running
              \<and> notifies (setWgengineStatus d b) = notifies b @ [notifyState Running]
              \<and> state (fold setWgengineStatus ds (setWgengineStatus d b)) = Running
              \<and> notifies (fold setWgengineStatus ds (setWgengineStatus d b)) =
                  notifies b @ [notifyState Running]" by simp
  }
  moreover
  {
    assume "\<exists>d' \<in> set ds. 0 < d'"
    from fold_setWgengineStatus_Starting[OF assms this]
    have "state (fold setWgengineStatus ds b) = Running
              \<and> notifies (fold setWgengineStatus ds b) = notifies b @ [notifyState Running]" .
  }
  ultimately show ?thesis using w by blast
qed

lemma relay_link_signals_at_test_backend:
  "settled loggedInBackend \<and> state loggedInBackend = Starting
   \<and> state (setWgengineStatus 1 loggedInBackend) = Running
   \<and> notifies (setWgengineStatus 1 loggedInBackend) = [notifyState Running]
   \<and> state (fold setWgengineStatus [0, 0, 1, 0, 1, 0] loggedInBackend) = Running
   \<and> notifies (fold setWgengineStatus [0, 0, 1, 0, 1, 0] loggedInBackend) = [notifyState Running]"
proof -
  have a: "settled loggedInBackend" "state loggedInBackend = Starting"
    by (simp_all add: loggedInBackend_def loggedInPrefs_def authorizedMap_def testNode_def settled_def nextState_def machineAuthorized_def)
  have n: "notifies loggedInBackend = []" by (simp add: loggedInBackend_def)
  show ?thesis
    using a n relay_link_signals_delivered_in_any_order[OF a, of 1 "[0, 0, 1, 0, 1, 0]"]
    by simp
qed

subsection \<open>edit-preferences\<close>

lemma EditPrefs_accepted:
  assumes "EditPrefs b mp = Inr (b', p)"
  shows "\<not> PersistSet mp"
    and "prefs b' = ApplyEdits (prefs b) mp"
    and "p = stripKeysFromPrefs (prefs b')"
    and "state b' = nextState b'"
    and "notifies b' = notifies b
           @ (if state b' = state b then [] else [notifyState (state b')])
           @ [notifyPrefs (prefs b')]"
proof -
  show np: "\<not> PersistSet mp" using assms by (auto simp: EditPrefs_def)
  let ?newp = "ApplyEdits (prefs b) mp"
  let ?b2 = "(if \<not> WantRunning (prefs b) \<and> WantRunning ?newp \<and> ccGen b \<noteq> 0
              then called CallLogin (b\<lparr>prefs := ?newp\<rparr>) else b\<lparr>prefs := ?newp\<rparr>)"
  have e: "b' = send (notifyPrefs ?newp) (stateMachine ?b2)" "p = stripKeysFromPrefs ?newp"
    using assms np by (simp_all add: EditPrefs_def Let_def)
  have f: "prefs ?b2 = ?newp" "state ?b2 = state b" "notifies ?b2 = notifies b"
    by (simp_all add: called_def)
  show "prefs b' = ?newp" using e f by simp
  then show "p = stripKeysFromPrefs (prefs b')" using e by simp
  show "state b' = nextState b'" using e by simp
  show "notifies b' = notifies b
           @ (if state b' = state b then [] else [notifyState (state b')])
           @ [notifyPrefs (prefs b')]"
    using e f by (simp add: stateMachine_notifies)
qed

text \<open>
  Every accepted edit that changes the state emits the state notification first and the
  preferences notification second; the test's ``WantRunning -> true'' is one such edit.
\<close>

lemma EditPrefs_state_before_prefs:
  assumes "EditPrefs b mp = Inr (b', p)" and "state b' \<noteq> state b"
  shows "notifies b' = notifies b @ [notifyState (state b'), notifyPrefs (prefs b')]"
  using EditPrefs_accepted(5)[OF assms(1)] assms(2) by simp

lemma EditPrefs_WantRunning_true:
  "EditPrefs stoppedBackend (editWantRunning True) =
     Inr (stoppedBackend\<lparr>prefs := loggedInPrefs, state := Starting, ccPaused := False,
            ccCalls := [(1, CallPause), (1, CallLogin), (1, CallUnpause)],
            notifies := [notifyState Stopped, notifyPrefs stoppedPrefs,
                         notifyState Starting, notifyPrefs loggedInPrefs]\<rparr>,
          stripKeysFromPrefs loggedInPrefs)
   \<and> state stoppedBackend = Stopped
   \<and> notifies stoppedBackend = [notifyState Stopped, notifyPrefs stoppedPrefs]"
proof -
  have h: "EditPrefs stoppedBackend (editWantRunning True) =
     Inr (stoppedBackend\<lparr>prefs := loggedInPrefs, state := Starting, ccPaused := False,
            ccCalls := [(1, CallPause), (1, CallLogin), (1, CallUnpause)],
            notifies := [notifyState Stopped, notifyPrefs stoppedPrefs,
                         notifyState Starting, notifyPrefs loggedInPrefs]\<rparr>,
          stripKeysFromPrefs loggedInPrefs)"
    by (simp add: loggedInBackend_def loggedInPrefs_def authorizedMap_def testNode_def stoppedBackend_def
          stoppedPrefs_def editWantRunning_def noEdit_def newPrefs_def orch_all_defs)
  have s: "state (stoppedBackend\<lparr>prefs := loggedInPrefs, state := Starting, ccPaused := False,
            ccCalls := [(1, CallPause), (1, CallLogin), (1, CallUnpause)],
            notifies := [notifyState Stopped, notifyPrefs stoppedPrefs,
                         notifyState Starting, notifyPrefs loggedInPrefs]\<rparr>) \<noteq> state stoppedBackend"
    by (simp add: stoppedBackend_def)
  show ?thesis
    using h EditPrefs_state_before_prefs[OF h s] by (simp add: stoppedBackend_def)
qed

text \<open>
  Claim C5, evaluated at the test's ``WantRunning -> false'': the edit is accepted and
  changes the state from \<open>Starting\<close> to \<open>Stopped\<close>, and of the two notifications it emits
  the first carries the state and no preferences, the second the preferences and no state.
  The claim asks for the opposite order.
\<close>

theorem EditPrefs_WantRunning_false_state_first:
  "EditPrefs loggedInBackend (editWantRunning False) =
     Inr (stoppedBackend, stripKeysFromPrefs stoppedPrefs)
   \<and> state loggedInBackend = Starting \<and> state stoppedBackend = Stopped
   \<and> notifies loggedInBackend = []
   \<and> map n_State (notifies stoppedBackend) = [Some Stopped, None]
   \<and> map n_Prefs (notifies stoppedBackend) = [None, Some stoppedPrefs]"
  by (simp add: loggedInBackend_def loggedInPrefs_def authorizedMap_def testNode_def stoppedBackend_def
          stoppedPrefs_def editWantRunning_def noEdit_def newPrefs_def orch_all_defs)

text \<open>
  Claim C6. An edit that touches only non-identity fields, that is, one whose mask does not
  flag the persisted identity, is accepted and leaves the persisted identity of the stored
  preferences unchanged, and with it the private key, the old private key and the
  network-lock key. The value handed back to the caller is a copy of the stored
  preferences with these three keys set to zero; it is this copy that
  \<^verbatim>\<open>TestEditPrefsHasNoKeys\<close> inspects.
\<close>

theorem EditPrefs_key_material:
  assumes "\<not> PersistSet mp"
  shows "\<exists>b' p. EditPrefs b mp = Inr (b', p)
           \<and> Persist (prefs b') = Persist (prefs b)
           \<and> p = stripKeysFromPrefs (prefs b')
           \<and> PrivateNodeKey (Persist p) = 0
           \<and> OldPrivateNodeKey (Persist p) = 0
           \<and> NetworkLockKey (Persist p) = 0"
proof -
  obtain b' p where e: "EditPrefs b mp = Inr (b', p)"
    using assms by (simp add: EditPrefs_def Let_def)
  have "Persist (prefs b') = Persist (prefs b)"
    using EditPrefs_accepted(2)[OF e] by (simp add: ApplyEdits_def)
  moreover have "p = stripKeysFromPrefs (prefs b')"
    by (rule EditPrefs_accepted(3)[OF e])
  ultimately show ?thesis using e by (simp add: stripKeysFromPrefs_def)
qed

theorem EditPrefs_key_material_witness:
  "\<not> PersistSet (editHostname ''foo'')
   \<and> EditPrefs keyedBackend (editHostname ''foo'') =
       Inr (keyedBackend\<lparr>prefs := keyedPrefs\<lparr>Prefs_Hostname := ''foo''\<rparr>,
                         notifies := [notifyPrefs (keyedPrefs\<lparr>Prefs_Hostname := ''foo''\<rparr>)]\<rparr>,
            stripKeysFromPrefs (keyedPrefs\<lparr>Prefs_Hostname := ''foo''\<rparr>))
   \<and> Persist (keyedPrefs\<lparr>Prefs_Hostname := ''foo''\<rparr>) = Persist (prefs keyedBackend)
   \<and> PrivateNodeKey (Persist (prefs keyedBackend)) = 1
   \<and> OldPrivateNodeKey (Persist (prefs keyedBackend)) = 2"
  using EditPrefs_key_material[of "editHostname ''foo''" keyedBackend]
  by (simp add: keyedBackend_def keyedPrefs_def newLocalBackend_def newPrefs_def editHostname_def
        noEdit_def orch_all_defs)

end
